theory Spec2Isabelle
  imports Complex_Main
begin

section \<open>Extras functions for time series: the embedding\<close>

text \<open>
  The module \<^verbatim>\<open>scikits/timeseries/extras.py\<close> is embedded function by function.
  Python integers are \<open>int\<close>; the counts held in numpy integer arrays stay far below
  the width of the machine integer, so they are \<open>int\<close> as well. Every \<^verbatim>\<open>raise\<close> of the
  module, explicit or implicit, is a value of the type \<open>error\<close>.
\<close>

subsection \<open>Exceptions\<close>

datatype error =
    TypeError
  | NotImplementedError
  | UnboundLocalError
  | ZeroDivisionError
  | ValueError
  | IndexError
  | KeyError
  | ParserError

definition err_bind :: "error + 'a \<Rightarrow> ('a \<Rightarrow> error + 'b) \<Rightarrow> error + 'b" where
  "err_bind r f = (case r of Inl e \<Rightarrow> Inl e | Inr x \<Rightarrow> f x)"

subsection \<open>isleapyear\<close>

text \<open>
  \<^verbatim>\<open>np.logical_or(year % 400 == 0, np.logical_and(year % 4 == 0, year % 100 > 0))\<close>.
  Python's \<^verbatim>\<open>%\<close> with a positive modulus is the floored remainder, which is \<open>mod\<close> on
  \<open>int\<close>. \<^verbatim>\<open>np.asarray\<close> makes the function work element by element on a sequence:
  \<open>isleapyears\<close>.
\<close>

definition isleapyear :: "int \<Rightarrow> bool" where
  "isleapyear year \<longleftrightarrow> year mod 400 = 0 \<or> (year mod 4 = 0 \<and> year mod 100 > 0)"

definition isleapyears :: "int list \<Rightarrow> bool list" where
  "isleapyears years = map isleapyear years"

subsection \<open>The frequency constants\<close>

text \<open>
  The module reads its frequency codes from \<^verbatim>\<open>const\<close> (\<^verbatim>\<open>import const as _c\<close>), which is
  not among the source files. The codes are therefore a parameter \<open>c\<close> of every function
  that reads one: \<open>c FR_ANN\<close> stands for \<^verbatim>\<open>_c.FR_ANN\<close>. The names are the ones the module
  uses, and \<open>FR_QTREJUL\<close>, \<open>FR_QTRSJUL\<close>, the two quarterly codes it never mentions.
\<close>

datatype fr_name =
    FR_ANN | FR_QTR | FR_MTH | FR_WK | FR_DAY | FR_HR | FR_MIN | FR_SEC
  | FR_QTREJAN | FR_QTREFEB | FR_QTREMAR | FR_QTREAPR | FR_QTREMAY | FR_QTREJUN
  | FR_QTREJUL | FR_QTREAUG | FR_QTRESEP | FR_QTREOCT | FR_QTRENOV | FR_QTREDEC
  | FR_QTRSJAN | FR_QTRSFEB | FR_QTRSMAR | FR_QTRSAPR | FR_QTRSMAY | FR_QTRSJUN
  | FR_QTRSJUL | FR_QTRSAUG | FR_QTRSSEP | FR_QTRSOCT | FR_QTRSNOV | FR_QTRSDEC

type_synonym fr_consts = "fr_name \<Rightarrow> int"

text \<open>
  Modelled from the spec: the module \<^verbatim>\<open>const\<close> is missing; the spec says only that a
  frequency code is an enumerated, totally ordered tag, with one quarterly code for each
  fiscal start month. \<open>lib_consts\<close> is one such assignment, the numbering of the
  library (thousands for the categories, the quarterly codes counted from December);
  it serves as the concrete input of the examples, and no general theorem depends on it.
\<close>

fun lib_consts :: fr_consts where
  "lib_consts FR_ANN = 1000"
| "lib_consts FR_QTR = 2000"
| "lib_consts FR_MTH = 3000"
| "lib_consts FR_WK = 4000"
| "lib_consts FR_DAY = 6000"
| "lib_consts FR_HR = 7000"
| "lib_consts FR_MIN = 8000"
| "lib_consts FR_SEC = 9000"
| "lib_consts FR_QTREDEC = 2000"
| "lib_consts FR_QTREJAN = 2001"
| "lib_consts FR_QTREFEB = 2002"
| "lib_consts FR_QTREMAR = 2003"
| "lib_consts FR_QTREAPR = 2004"
| "lib_consts FR_QTREMAY = 2005"
| "lib_consts FR_QTREJUN = 2006"
| "lib_consts FR_QTREJUL = 2007"
| "lib_consts FR_QTREAUG = 2008"
| "lib_consts FR_QTRESEP = 2009"
| "lib_consts FR_QTREOCT = 2010"
| "lib_consts FR_QTRENOV = 2011"
| "lib_consts FR_QTRSDEC = 2012"
| "lib_consts FR_QTRSJAN = 2013"
| "lib_consts FR_QTRSFEB = 2014"
| "lib_consts FR_QTRSMAR = 2015"
| "lib_consts FR_QTRSAPR = 2016"
| "lib_consts FR_QTRSMAY = 2017"
| "lib_consts FR_QTRSJUN = 2018"
| "lib_consts FR_QTRSJUL = 2019"
| "lib_consts FR_QTRSAUG = 2020"
| "lib_consts FR_QTRSSEP = 2021"
| "lib_consts FR_QTRSOCT = 2022"
| "lib_consts FR_QTRSNOV = 2023"

subsection \<open>The TimeSeries container\<close>

text \<open>
  A TimeSeries pairs its dates with a data array and a mask of the same shape. The
  module reads from it: \<^verbatim>\<open>freq\<close>, the calendar fields \<^verbatim>\<open>year\<close> and \<^verbatim>\<open>months\<close> of the dates
  (one per entry of the leading axis), \<^verbatim>\<open>ndim\<close>, \<^verbatim>\<open>shape[-1]\<close>, \<^verbatim>\<open>len\<close> and \<^verbatim>\<open>count\<close>. The
  array is kept by rank: rank 1 and rank 2 with their contents (a rank-2 array with its
  trailing-axis width, which \<^verbatim>\<open>shape[-1]\<close> gives also when there is no row), the other
  ranks without, since the module raises on them before reading any content.
  \<open>RankHigh k\<close> has rank \<open>3 + k\<close>. A mask entry \<open>True\<close> is a missing value.
\<close>

datatype 'a payload =
    Rank0 'a bool
  | Rank1 "'a list" "bool list"
  | Rank2 nat "'a list list" "bool list list"
  | RankHigh nat

record 'a timeseries =
  freq :: int
  years :: "int list"
  months :: "int list"
  payload :: "'a payload"

text \<open>What \<^verbatim>\<open>isinstance(series, TimeSeries)\<close> tells apart.\<close>

datatype 'a pyobj = TS "'a timeseries" | NotTS


text \<open>\<^verbatim>\<open>count\<close>: the number of entries that are not masked.\<close>

definition count_valid :: "bool list \<Rightarrow> nat" where
  "count_valid m = length (filter Not m)"

text \<open>
  The invariant of the container (\<^verbatim>\<open>len(dates) == data.shape[0]\<close>, data and mask of one
  shape, every row of the trailing-axis width).
\<close>

fun wf_payload :: "nat \<Rightarrow> 'a payload \<Rightarrow> bool" where
  "wf_payload n (Rank0 _ _) = True"
| "wf_payload n (Rank1 d m) = (length d = n \<and> length m = n)"
| "wf_payload n (Rank2 w d m) =
     (length d = n \<and> length m = n \<and> list_all (\<lambda>r. length r = w) d
      \<and> list_all (\<lambda>r. length r = w) m)"
| "wf_payload n (RankHigh _) = True"

definition wf_series :: "'a timeseries \<Rightarrow> bool" where
  "wf_series s \<longleftrightarrow> length (months s) = length (years s) \<and> wf_payload (length (years s)) (payload s)"

subsection \<open>count\_missing\<close>

text \<open>
  The result is a number for a rank-1 series and one number per row for a rank-2 one.
\<close>

datatype missing = Scalar int | PerRow "int list"

text \<open>
  \<^verbatim>\<open>missing[b] -= k\<close> with a boolean index \<open>b\<close>, and \<^verbatim>\<open>missing -= b\<close> with a boolean array
  (\<^verbatim>\<open>True\<close> counts 1). numpy wants \<open>b\<close> as long as \<open>missing\<close>, which the invariant of the
  container gives.
\<close>

definition isub_where :: "bool list \<Rightarrow> int \<Rightarrow> int list \<Rightarrow> int list" where
  "isub_where b k xs = map (\<lambda>(bi, x). if bi then x - k else x) (zip b xs)"

definition isub_bools :: "bool list \<Rightarrow> int list \<Rightarrow> int list" where
  "isub_bools b xs = map (\<lambda>(bi, x). x - (if bi then 1 else 0)) (zip b xs)"

definition and_not :: "bool list \<Rightarrow> bool list \<Rightarrow> bool list" where
  "and_not a b = map (\<lambda>(x, y). x \<and> \<not> y) (zip a b)"

text \<open>
  \<^verbatim>\<open>missing[np.array([... for m in months])] -= k\<close>: the index is built from a Python
  list of booleans. Of a list with entries numpy makes a boolean array; of the empty
  list, the list of a series with no row, it makes an empty array of floats, and an array
  of floats is refused as an index: \<^verbatim>\<open>IndexError\<close>. (\<^verbatim>\<open>months == 2\<close> is a boolean array
  also when it is empty.)
\<close>

definition isub_listed :: "bool list \<Rightarrow> int \<Rightarrow> int list \<Rightarrow> error + int list" where
  "isub_listed b k xs = (if b = [] then Inl IndexError else Inr (isub_where b k xs))"

text \<open>
  \<^verbatim>\<open>(period == p) and (freq//k == 1)\<close>: the division is evaluated only when the width is
  \<open>p\<close>, and raises when the constant is zero.
\<close>

definition period_freq :: "nat \<Rightarrow> nat \<Rightarrow> int \<Rightarrow> int \<Rightarrow> error + bool" where
  "period_freq period p fr k =
     (if period = p then (if k = 0 then Inl ZeroDivisionError else Inr (fr div k = 1))
      else Inr False)"

text \<open>The three tuples of the quarterly branch, as the source lists them.\<close>

definition qtr_group1 :: "fr_consts \<Rightarrow> int list" where
  "qtr_group1 c = [c FR_QTREJAN, c FR_QTRSJAN, c FR_QTREAPR, c FR_QTRSAPR,
                   c FR_QTREOCT, c FR_QTRSOCT, c FR_QTREOCT, c FR_QTRSOCT]"

definition qtr_group2 :: "fr_consts \<Rightarrow> int list" where
  "qtr_group2 c = [c FR_QTREFEB, c FR_QTRSFEB, c FR_QTREMAY, c FR_QTRSMAY,
                   c FR_QTREAUG, c FR_QTRSAUG, c FR_QTRENOV, c FR_QTRSNOV]"

definition qtr_group3 :: "fr_consts \<Rightarrow> int list" where
  "qtr_group3 c = [c FR_QTREMAR, c FR_QTRSMAR, c FR_QTREJUN, c FR_QTRSJUN,
                   c FR_QTRESEP, c FR_QTRSSEP, c FR_QTREDEC, c FR_QTRSDEC]"

text \<open>
  The quarterly branch. \<^verbatim>\<open>isfeb\<close> is bound in each of the three branches and in no
  other; the last statement reads it, so a frequency in none of the tuples raises
  \<^verbatim>\<open>UnboundLocalError\<close> there. The second and the third branch index with an array
  built from a list.
\<close>

definition count_missing_qtr ::
  "fr_consts \<Rightarrow> int \<Rightarrow> int list \<Rightarrow> int list \<Rightarrow> int list \<Rightarrow> error + int list" where
  "count_missing_qtr c fr mths yrs missing =
     err_bind
       (if fr \<in> set (qtr_group1 c) then
          (let isfeb = map (\<lambda>m. m = 4) mths in Inr (isub_where isfeb 2 missing, Some isfeb))
        else if fr \<in> set (qtr_group2 c) then
          err_bind (isub_listed (map (\<lambda>m. m \<in> set [2, 11]) mths) 1 missing) (\<lambda>missing1.
          Inr (missing1, Some (map (\<lambda>m. m = 2) mths)))
        else if fr \<in> set (qtr_group3 c) then
          err_bind (isub_listed (map (\<lambda>m. m \<in> set [3, 6]) mths) 1 missing) (\<lambda>missing1.
          Inr (missing1, Some (map (\<lambda>m. m = 3) mths)))
        else Inr (missing, None))
       (\<lambda>(missing1, isfeb).
          case isfeb of
            None \<Rightarrow> Inl UnboundLocalError
          | Some f \<Rightarrow> Inr (isub_where (and_not f (isleapyears yrs)) 1 missing1))"

text \<open>The monthly branch.\<close>

definition count_missing_mth :: "int list \<Rightarrow> int list \<Rightarrow> int list \<Rightarrow> error + int list" where
  "count_missing_mth mths yrs missing =
     err_bind (isub_listed (map (\<lambda>m. m \<in> set [4, 6, 9, 11]) mths) 1 missing) (\<lambda>missing1.
       let isfeb = map (\<lambda>m. m = 2) mths;
           missing2 = isub_where isfeb 2 missing1
       in Inr (isub_where (and_not isfeb (isleapyears yrs)) 1 missing2))"

definition count_missing_2d ::
  "fr_consts \<Rightarrow> 'a timeseries \<Rightarrow> nat \<Rightarrow> bool list list \<Rightarrow> error + int list" where
  "count_missing_2d c s w m =
     (let missing = map (\<lambda>r. int w - int (count_valid r)) m;
          period = w;
          fr = freq s
      in err_bind (period_freq period 366 fr (c FR_ANN)) (\<lambda>ann.
         if ann then Inr (isub_bools (map Not (isleapyears (years s))) missing)
         else err_bind (period_freq period 31 fr (c FR_MTH)) (\<lambda>mth.
         if mth then count_missing_mth (months s) (years s) missing
         else err_bind (period_freq period 92 fr (c FR_QTR)) (\<lambda>qtr.
         if qtr then count_missing_qtr c fr (months s) (years s) missing
         else if period \<notin> set [12, 7] then Inl NotImplementedError
         else Inr missing))))"

definition count_missing :: "fr_consts \<Rightarrow> 'a pyobj \<Rightarrow> error + missing" where
  "count_missing c obj =
     (case obj of
        NotTS \<Rightarrow> Inl TypeError
      | TS s \<Rightarrow>
          (case payload s of
             Rank1 d m \<Rightarrow> Inr (Scalar (int (length d) - int (count_valid m)))
           | Rank2 w d m \<Rightarrow> map_sum id PerRow (count_missing_2d c s w m)
           | _ \<Rightarrow> Inl NotImplementedError))"

subsection \<open>convert\_to\_annual\<close>

text \<open>
  Python's slice \<^verbatim>\<open>xs[a:b]\<close> with step 1: a negative bound counts from the end, and both
  bounds are clipped to the list. \<^verbatim>\<open>xs[a:]\<close> is \<open>py_slice_from\<close>.
\<close>

definition py_bound :: "int \<Rightarrow> nat \<Rightarrow> nat" where
  "py_bound i n = (if i < 0 then nat (max (i + int n) 0) else min (nat i) n)"

definition py_slice :: "int \<Rightarrow> int \<Rightarrow> 'x list \<Rightarrow> 'x list" where
  "py_slice a b xs =
     (let lo = py_bound a (length xs); hi = py_bound b (length xs)
      in take (hi - lo) (drop lo xs))"

definition py_slice_from :: "int \<Rightarrow> 'x list \<Rightarrow> 'x list" where
  "py_slice_from a xs = drop (py_bound a (length xs)) xs"

text \<open>
  \<^verbatim>\<open>row[a:] = src\<close>: numpy copies \<open>src\<close> over the slice when the lengths agree (or \<open>src\<close> has
  one element, which it repeats) and raises \<^verbatim>\<open>ValueError\<close> otherwise.
\<close>

definition set_slice_from :: "int \<Rightarrow> 'x list \<Rightarrow> 'x list \<Rightarrow> error + 'x list" where
  "set_slice_from a src row =
     (let lo = py_bound a (length row); n = length row - lo
      in if length src = n then Inr (take lo row @ src)
         else if length src = 1 then Inr (take lo row @ replicate n (hd src))
         else Inl ValueError)"

text \<open>\<^verbatim>\<open>row[a:b] = ma.masked\<close> on the mask of a row: the slots of the slice become missing.\<close>

definition mask_slice :: "int \<Rightarrow> int \<Rightarrow> bool list \<Rightarrow> bool list" where
  "mask_slice a b m =
     (let lo = py_bound a (length m); hi = py_bound b (length m)
      in take lo m @ map (\<lambda>_. True) (take (hi - lo) (drop lo m)) @ drop (max lo hi) m)"

text \<open>
  The two assignments of the source on one row, data and mask:
  \<^verbatim>\<open>aseries[leapidx, idx0301:] = aseries[leapidx, idx0228:idx0228-idx0301]\<close> and
  \<^verbatim>\<open>aseries[leapidx, idx0228:idx0301] = ma.masked\<close>. The right-hand side of the first is
  taken with an index array, so it is a copy made before anything is written.
\<close>

definition shift_row ::
  "int \<Rightarrow> int \<Rightarrow> 'a list \<times> bool list \<Rightarrow> error + ('a list \<times> bool list)" where
  "shift_row idx0228 idx0301 row =
     (case row of (d, m) \<Rightarrow>
        err_bind (set_slice_from idx0301 (py_slice idx0228 (idx0228 - idx0301) d) d) (\<lambda>d1.
        err_bind (set_slice_from idx0301 (py_slice idx0228 (idx0228 - idx0301) m) m) (\<lambda>m1.
        Inr (d1, mask_slice idx0228 idx0301 m1))))"

fun shift_rows ::
  "int \<Rightarrow> int \<Rightarrow> bool list \<Rightarrow> ('a list \<times> bool list) list \<Rightarrow> error + ('a list \<times> bool list) list" where
  "shift_rows i28 i01 (leap # ls) (row # rows) =
     err_bind (if leap then Inr row else shift_row i28 i01 row) (\<lambda>row1.
     err_bind (shift_rows i28 i01 ls rows) (\<lambda>rows1. Inr (row1 # rows1)))"
| "shift_rows i28 i01 _ rows = Inr rows"

text \<open>
  The \<^verbatim>\<open>if\<close>/\<^verbatim>\<open>elif\<close> chain that binds \<^verbatim>\<open>(idx0228, idx0301)\<close>; no branch taken leaves both
  names unbound.
\<close>

definition leap_offsets :: "fr_consts \<Rightarrow> int \<Rightarrow> (int \<times> int) option" where
  "leap_offsets c fr =
     (if fr = c FR_DAY then Some (59, 60)
      else if fr = c FR_HR then Some (59 * 24, 60 * 24)
      else if fr = c FR_MIN then Some (59 * 24 * 60, 60 * 24 * 60)
      else if fr = c FR_SEC then Some (59 * 24 * 3600, 60 * 24 * 3600)
      else None)"

text \<open>
  \<^verbatim>\<open>series.convert('A')\<close> is a method of the container, not of this module: it is the
  parameter \<open>convertA\<close>. On its result the source takes \<^verbatim>\<open>len\<close> (a rank-0 array has none:
  \<^verbatim>\<open>TypeError\<close>) and indexes two axes (a rank-1 array has one: \<^verbatim>\<open>IndexError\<close>). Arrays of
  rank 3 and more are kept without contents, so on them the result says no more than
  that the rank, the dates and the frequency stay.
\<close>

definition convert_to_annual ::
  "fr_consts \<Rightarrow> ('a timeseries \<Rightarrow> error + 'a timeseries) \<Rightarrow> 'a timeseries
     \<Rightarrow> error + 'a timeseries" where
  "convert_to_annual c convertA series =
     (let fr = freq series in
      if fr < c FR_DAY then convertA series
      else
        (let idx = leap_offsets c fr in
         err_bind (convertA series) (\<lambda>aseries.
           let leapcondition = isleapyears (years aseries) in
           case payload aseries of
             Rank0 _ _ \<Rightarrow> Inl TypeError
           | Rank1 _ _ \<Rightarrow> (case idx of None \<Rightarrow> Inl UnboundLocalError | Some _ \<Rightarrow> Inl IndexError)
           | RankHigh _ \<Rightarrow> (case idx of None \<Rightarrow> Inl UnboundLocalError | Some _ \<Rightarrow> Inr aseries)
           | Rank2 w d m \<Rightarrow>
               (case idx of
                  None \<Rightarrow> Inl UnboundLocalError
                | Some (idx0228, idx0301) \<Rightarrow>
                    err_bind (shift_rows idx0228 idx0301 leapcondition (zip d m)) (\<lambda>rows.
                    Inr (aseries\<lparr>payload := Rank2 w (map fst rows) (map snd rows)\<rparr>))))))"

subsection \<open>accept\_atmost\_missing\<close>

text \<open>
  \<^verbatim>\<open>np.round(x, 0)\<close> rounds to the nearest integer and a tie to the even one.
\<close>

definition np_round :: "rat \<Rightarrow> int" where
  "np_round x =
     (let f = \<lfloor>x\<rfloor>; r = x - of_int f
      in if r < 1 / 2 then f else if 1 / 2 < r then f + 1 else if even f then f else f + 1)"

text \<open>\<^verbatim>\<open>series.shape[-1]\<close>, for the ranks on which \<^verbatim>\<open>count_missing\<close> returns.\<close>

fun last_dim :: "'a payload \<Rightarrow> nat" where
  "last_dim (Rank1 d m) = length d"
| "last_dim (Rank2 w d m) = w"
| "last_dim _ = 0"

text \<open>
  \<^verbatim>\<open>max_missing\<close> is a number: an integer or the rational value of a float. The product
  \<^verbatim>\<open>max_missing * series.shape[-1]\<close> is a floating-point product when \<^verbatim>\<open>max_missing\<close> is a
  float; how it rounds is the platform's, so the product is the parameter \<open>fmul\<close>.
\<close>

definition threshold :: "(rat \<Rightarrow> nat \<Rightarrow> rat) \<Rightarrow> rat \<Rightarrow> nat \<Rightarrow> rat" where
  "threshold fmul max_missing w =
     (if max_missing < 1 then of_int (np_round (fmul max_missing w)) else max_missing)"

text \<open>\<^verbatim>\<open>missing > max_missing\<close> when \<^verbatim>\<open>strict\<close>, \<^verbatim>\<open>missing >= max_missing\<close> otherwise.\<close>

definition over :: "bool \<Rightarrow> rat \<Rightarrow> int \<Rightarrow> bool" where
  "over strict max_missing x = (if strict then max_missing < of_int x else max_missing \<le> of_int x)"

text \<open>
  \<^verbatim>\<open>series[sel] = masked\<close> with one boolean per row: the rows selected become missing in
  every slot, the data stay.
\<close>

fun mask_where :: "bool list \<Rightarrow> bool list list \<Rightarrow> bool list list" where
  "mask_where (b # bs) (r # rs) = (if b then map (\<lambda>_. True) r else r) # mask_where bs rs"
| "mask_where _ rs = rs"

text \<open>
  Modelled from the spec: on a rank-1 series \<^verbatim>\<open>missing\<close> is one number and the index of
  \<^verbatim>\<open>series[...] = masked\<close> one boolean; the assignment is \<^verbatim>\<open>TimeSeries.__setitem__\<close>, which is
  missing. The spec masks entirely what is over the threshold and leaves the rest: the
  whole series is masked when the boolean is true and untouched when it is false.
\<close>

definition setitem_masked :: "missing \<Rightarrow> (int \<Rightarrow> bool) \<Rightarrow> 'a payload \<Rightarrow> 'a payload" where
  "setitem_masked missing sel p =
     (case (missing, p) of
        (PerRow xs, Rank2 w d m) \<Rightarrow> Rank2 w d (mask_where (map sel xs) m)
      | (Scalar x, Rank1 d m) \<Rightarrow> Rank1 d (if sel x then map (\<lambda>_. True) m else m)
      | _ \<Rightarrow> p)"

text \<open>
  The function on values: \<^verbatim>\<open>np.array(series, copy=True, subok=True)\<close> gives a series
  equal to the input (and a plain array, which is no TimeSeries, for anything else).
\<close>

definition accept_atmost_missing ::
  "(rat \<Rightarrow> nat \<Rightarrow> rat) \<Rightarrow> fr_consts \<Rightarrow> 'a pyobj \<Rightarrow> rat \<Rightarrow> bool \<Rightarrow> error + 'a timeseries" where
  "accept_atmost_missing fmul c obj max_missing strict =
     (case obj of
        NotTS \<Rightarrow> Inl TypeError
      | TS series \<Rightarrow>
          err_bind (count_missing c (TS series)) (\<lambda>missing.
            let max_missing1 = threshold fmul max_missing (last_dim (payload series))
            in Inr (series\<lparr>payload :=
                 setitem_masked missing (over strict max_missing1) (payload series)\<rparr>)))"

subsection \<open>guess\_freq\<close>





subsection \<open>accept\_atmost\_missing on a store\<close>

text \<open>
  Who owns the mask matters to the callers of \<^verbatim>\<open>accept_atmost_missing\<close>, so the function
  is embedded a second time over an explicit store: objects (the attributes of a
  TimeSeries, among them the references to its data and to its mask), data buffers and
  mask buffers, each at an address. \<open>next_addr\<close> is the first address never handed out.
\<close>

type_synonym addr = nat

datatype 'x arr = A0 'x | A1 "'x list" | A2 nat "'x list list" | AHigh nat

record ts_obj =
  o_freq :: int
  o_years :: "int list"
  o_months :: "int list"
  o_data :: addr
  o_mask :: addr

record 'a store =
  objs :: "addr \<rightharpoonup> ts_obj"
  dbuf :: "addr \<rightharpoonup> 'a arr"
  mbuf :: "addr \<rightharpoonup> bool arr"
  next_addr :: addr

fun mk_payload :: "'a arr \<Rightarrow> bool arr \<Rightarrow> 'a payload option" where
  "mk_payload (A0 x) (A0 b) = Some (Rank0 x b)"
| "mk_payload (A1 d) (A1 m) = Some (Rank1 d m)"
| "mk_payload (A2 w d) (A2 w' m) = (if w = w' then Some (Rank2 w d m) else None)"
| "mk_payload (AHigh k) (AHigh k') = (if k = k' then Some (RankHigh k) else None)"
| "mk_payload _ _ = None"

text \<open>
  The series an address stands for. An address that holds no object, or an object whose
  buffers are absent or of two shapes, is no TimeSeries.
\<close>

definition load :: "'a store \<Rightarrow> addr \<Rightarrow> 'a pyobj" where
  "load st a =
     (case objs st a of
        None \<Rightarrow> NotTS
      | Some ob \<Rightarrow>
          (case (dbuf st (o_data ob), mbuf st (o_mask ob)) of
             (Some d, Some m) \<Rightarrow>
               (case mk_payload d m of
                  None \<Rightarrow> NotTS
                | Some p \<Rightarrow> TS \<lparr>freq = o_freq ob, years = o_years ob, months = o_months ob,
                                 payload = p\<rparr>)
           | _ \<Rightarrow> NotTS))"

text \<open>
  Modelled from the spec: the container and its masked storage are missing.
  \<^verbatim>\<open>np.array(series, copy=True, subok=True)\<close> makes a new object of the same class with a
  copy of the data; its mask is still the mask of the input (the spec: the input's mask
  may be shared with other views, and the result is unshared from it).
\<close>

definition np_array_copy :: "'a store \<Rightarrow> addr \<Rightarrow> ('a store \<times> addr) option" where
  "np_array_copy st a =
     (case objs st a of
        None \<Rightarrow> None
      | Some ob \<Rightarrow>
          (case dbuf st (o_data ob) of
             None \<Rightarrow> None
           | Some d \<Rightarrow>
               (let da = next_addr st; oc = next_addr st + 1
                in Some (st\<lparr>objs := (objs st)(oc \<mapsto> ob\<lparr>o_data := da\<rparr>),
                             dbuf := (dbuf st)(da \<mapsto> d),
                             next_addr := next_addr st + 2\<rparr>, oc))))"

text \<open>
  Modelled from the spec: \<^verbatim>\<open>unshare_mask\<close> is a method of the missing container. The spec
  calls it copy-on-write unsharing: the object gets a copy of the mask in storage of its
  own.
\<close>

definition unshare_mask :: "'a store \<Rightarrow> addr \<Rightarrow> 'a store" where
  "unshare_mask st a =
     (case objs st a of
        None \<Rightarrow> st
      | Some ob \<Rightarrow>
          (case mbuf st (o_mask ob) of
             None \<Rightarrow> st
           | Some m \<Rightarrow>
               (let ma = next_addr st
                in st\<lparr>objs := (objs st)(a \<mapsto> ob\<lparr>o_mask := ma\<rparr>),
                       mbuf := (mbuf st)(ma \<mapsto> m),
                       next_addr := next_addr st + 1\<rparr>)))"

text \<open>
  \<^verbatim>\<open>series[sel] = masked\<close> writes the mask of the object where it lies; see
  \<open>setitem_masked\<close> for what it writes.
\<close>

definition setitem_mask :: "missing \<Rightarrow> (int \<Rightarrow> bool) \<Rightarrow> bool arr \<Rightarrow> bool arr" where
  "setitem_mask missing sel mk =
     (case (missing, mk) of
        (PerRow xs, A2 w m) \<Rightarrow> A2 w (mask_where (map sel xs) m)
      | (Scalar x, A1 m) \<Rightarrow> A1 (if sel x then map (\<lambda>_. True) m else m)
      | _ \<Rightarrow> mk)"

definition setitem_masked_st ::
  "missing \<Rightarrow> (int \<Rightarrow> bool) \<Rightarrow> 'a store \<Rightarrow> addr \<Rightarrow> 'a store" where
  "setitem_masked_st missing sel st a =
     (case objs st a of
        None \<Rightarrow> st
      | Some ob \<Rightarrow>
          (case mbuf st (o_mask ob) of
             None \<Rightarrow> st
           | Some m \<Rightarrow> st\<lparr>mbuf := (mbuf st)(o_mask ob \<mapsto> setitem_mask missing sel m)\<rparr>))"

text \<open>
  The function on the store. It returns the store it leaves behind in every case, also
  when it raises.
\<close>

definition accept_atmost_missing_st ::
  "(rat \<Rightarrow> nat \<Rightarrow> rat) \<Rightarrow> fr_consts \<Rightarrow> 'a store \<Rightarrow> addr \<Rightarrow> rat \<Rightarrow> bool
     \<Rightarrow> 'a store \<times> (error + addr)" where
  "accept_atmost_missing_st fmul c st a max_missing strict =
     (case np_array_copy st a of
        None \<Rightarrow> (st, Inl TypeError)
      | Some (st1, series) \<Rightarrow>
          (case load st1 series of
             NotTS \<Rightarrow> (st1, Inl TypeError)
           | TS s \<Rightarrow>
               (case count_missing c (TS s) of
                  Inl e \<Rightarrow> (st1, Inl e)
                | Inr missing \<Rightarrow>
                    (let max_missing1 = threshold fmul max_missing (last_dim (payload s));
                         st2 = unshare_mask st1 series;
                         st3 = setitem_masked_st missing (over strict max_missing1) st2 series
                     in (st3, Inr series)))))"

text \<open>
  The invariant of the store: every address in use lies below \<open>next_addr\<close>, and the
  references of every object lead to buffers.
\<close>

definition wf_store :: "'a store \<Rightarrow> bool" where
  "wf_store st \<longleftrightarrow>
     (\<forall>a. a \<in> dom (objs st) \<longrightarrow> a < next_addr st) \<and>
     (\<forall>a. a \<in> dom (dbuf st) \<longrightarrow> a < next_addr st) \<and>
     (\<forall>a. a \<in> dom (mbuf st) \<longrightarrow> a < next_addr st) \<and>
     (\<forall>a ob. objs st a = Some ob \<longrightarrow> o_data ob \<in> dom (dbuf st) \<and> o_mask ob \<in> dom (mbuf st))"

subsection \<open>tsfromtxt\<close>


















subsection \<open>Reference values for the properties\<close>

text \<open>
  The number of masked slots of a row, and the corrections of \<^verbatim>\<open>count_missing\<close> row by
  row, written as tables to compare the vectorised code with: \<open>mth_pad\<close> for a month
  in a row of 31 slots, \<open>qtr_pad\<close> for a quarter in a row of 92 slots, by the tuple
  (1, 2 or 3, in the order the source tests them) that holds the frequency.
\<close>

definition count_masked :: "bool list \<Rightarrow> nat" where
  "count_masked m = length (filter (\<lambda>b. b) m)"

definition mth_pad :: "int \<Rightarrow> int \<Rightarrow> int" where
  "mth_pad m y =
     (if m = 4 \<or> m = 6 \<or> m = 9 \<or> m = 11 then 1
      else if m = 2 then (if isleapyear y then 2 else 3)
      else 0)"

definition qtr_group_of :: "fr_consts \<Rightarrow> int \<Rightarrow> nat option" where
  "qtr_group_of c fr =
     (if fr \<in> set (qtr_group1 c) then Some 1
      else if fr \<in> set (qtr_group2 c) then Some 2
      else if fr \<in> set (qtr_group3 c) then Some 3
      else None)"

definition qtr_pad :: "nat \<Rightarrow> int \<Rightarrow> int \<Rightarrow> int" where
  "qtr_pad g m y =
     (if g = 1 then (if m = 4 then (if isleapyear y then 2 else 3) else 0)
      else if g = 2 then
        (if m = 2 then (if isleapyear y then 1 else 2) else if m = 11 then 1 else 0)
      else
        (if m = 3 then (if isleapyear y then 1 else 2) else if m = 6 then 1 else 0))"

text \<open>
  The correction as the claim about quarters words it: 1 for the 30-day month, and for
  the variable-length month 2, plus 1 more when the year is not a leap year.
\<close>

definition qtr_pad_claimed :: "bool \<Rightarrow> bool \<Rightarrow> bool \<Rightarrow> int" where
  "qtr_pad_claimed thirty feb leap =
     (if thirty then 1 else 0) + (if feb then 2 + (if leap then 0 else 1) else 0)"


text \<open>
  For \<^verbatim>\<open>convert_to_annual\<close>: the number of slots of a day at each frequency the function
  knows, and a row of \<open>366 * m\<close> slots after the slots from \<open>59 * m\<close> on have moved up
  by \<open>m\<close> and the \<open>m\<close> slots from \<open>59 * m\<close> have been masked.
\<close>

definition subday_mult :: "fr_consts \<Rightarrow> int \<Rightarrow> nat option" where
  "subday_mult c fr =
     (if fr = c FR_DAY then Some 1
      else if fr = c FR_HR then Some 24
      else if fr = c FR_MIN then Some 1440
      else if fr = c FR_SEC then Some 86400
      else None)"

definition shifted_data :: "nat \<Rightarrow> 'x list \<Rightarrow> 'x list" where
  "shifted_data m row = take (60 * m) row @ take (306 * m) (drop (59 * m) row)"

definition shifted_mask :: "nat \<Rightarrow> bool list \<Rightarrow> bool list" where
  "shifted_mask m mk = take (59 * m) mk @ replicate m True @ take (306 * m) (drop (59 * m) mk)"



subsection \<open>Example inputs\<close>

text \<open>
  Four months of daily data in rows of 31 slots, the slots past the end of each month
  masked and nothing else: February 2003, February 2004, April 2004, May 2004. The second
  series has no slot masked at all.
\<close>

definition mth_example :: "int timeseries" where
  "mth_example =
     \<lparr>freq = 3000, years = [2003, 2004, 2004, 2004], months = [2, 2, 4, 5],
      payload = Rank2 31 (replicate 4 (replicate 31 0))
        [replicate 28 False @ replicate 3 True, replicate 29 False @ replicate 2 True,
         replicate 30 False @ replicate 1 True, replicate 31 False]\<rparr>"

definition mth_full_example :: "int timeseries" where
  "mth_full_example = mth_example\<lparr>payload := Rank2 31 (replicate 4 (replicate 31 0))
     (replicate 4 (replicate 31 False))\<rparr>"

text \<open>
  One quarter of daily data in a row of 92 slots, at the quarterly frequency whose year
  ends in February: December 2003 to February 2004, 91 days, the last slot masked.
\<close>

definition qtr_example :: "int timeseries" where
  "qtr_example =
     \<lparr>freq = 2002, years = [2004], months = [2],
      payload = Rank2 92 [replicate 92 0] [replicate 91 False @ replicate 1 True]\<rparr>"







text \<open>
  Two years of monthly data in rows of 12 slots: the first row has 6 of its slots
  masked, the second 5. The product of the examples is the exact one.
\<close>

definition half_example :: "int timeseries" where
  "half_example =
     \<lparr>freq = 3000, years = [2003, 2004], months = [1, 1],
      payload = Rank2 12 [[1, 2, 3, 4, 5, 6, 7, 8, 9, 10, 11, 12],
                          [1, 2, 3, 4, 5, 6, 7, 8, 9, 10, 11, 12]]
        [[False, False, False, False, False, False, True, True, True, True, True, True],
         [False, False, False, False, False, False, False, True, True, True, True, True]]\<rparr>"

definition exact_mul :: "rat \<Rightarrow> nat \<Rightarrow> rat" where
  "exact_mul x n = x * of_nat n"

text \<open>The same two years after their first row has been masked.\<close>

definition half_masked_example :: "int timeseries" where
  "half_masked_example =
     half_example\<lparr>payload := Rank2 12 [[1, 2, 3, 4, 5, 6, 7, 8, 9, 10, 11, 12],
                                        [1, 2, 3, 4, 5, 6, 7, 8, 9, 10, 11, 12]]
        [[True, True, True, True, True, True, True, True, True, True, True, True],
         [False, False, False, False, False, False, False, True, True, True, True, True]]\<rparr>"

text \<open>
  Two years of daily data in rows of 366 slots, as the conversion to the annual
  frequency lays them out: 2003 in the slots 0 to 364 with the last slot masked, 2004 in
  all the slots. The value of a slot is its index. The series converted is a parameter
  of the function; \<open>daily_example\<close> only carries the daily frequency.
\<close>

definition annual_example :: "nat timeseries" where
  "annual_example =
     \<lparr>freq = 1000, years = [2003, 2004], months = [12, 12],
      payload = Rank2 366 [[0..<366], [0..<366]]
        [replicate 365 False @ [True], replicate 366 False]\<rparr>"

definition daily_example :: "nat timeseries" where
  "daily_example = \<lparr>freq = 6000, years = [], months = [], payload = Rank1 [] []\<rparr>"

text \<open>
  A store with the two years of \<open>half_example\<close>: the data at address 0, the mask at
  address 1, the series at address 2, and at address 3 a view of it, a second object on
  the same data and the same mask.
\<close>

definition store_example :: "int store" where
  "store_example =
     \<lparr>objs = [2 \<mapsto> \<lparr>o_freq = 3000, o_years = [2003, 2004], o_months = [1, 1],
                      o_data = 0, o_mask = 1\<rparr>,
              3 \<mapsto> \<lparr>o_freq = 3000, o_years = [2003, 2004], o_months = [1, 1],
                      o_data = 0, o_mask = 1\<rparr>],
      dbuf = [0 \<mapsto> A2 12 [[1, 2, 3, 4, 5, 6, 7, 8, 9, 10, 11, 12],
                            [1, 2, 3, 4, 5, 6, 7, 8, 9, 10, 11, 12]]],
      mbuf = [1 \<mapsto> A2 12
        [[False, False, False, False, False, False, True, True, True, True, True, True],
         [False, False, False, False, False, False, False, True, True, True, True, True]]],
      next_addr = 4\<rparr>"

section \<open>Properties\<close>

subsection \<open>The vectorised updates, entry by entry\<close>

lemma length_isub_where: "length (isub_where b k xs) = min (length b) (length xs)"
  by (simp add: isub_where_def)

lemma nth_isub_where:
  "i < length b \<Longrightarrow> i < length xs \<Longrightarrow> isub_where b k xs ! i = (if b ! i then xs ! i - k else xs ! i)"
  by (simp add: isub_where_def)

lemma length_isub_bools: "length (isub_bools b xs) = min (length b) (length xs)"
  by (simp add: isub_bools_def)

lemma nth_isub_bools:
  "i < length b \<Longrightarrow> i < length xs \<Longrightarrow> isub_bools b xs ! i = xs ! i - (if b ! i then 1 else 0)"
  by (simp add: isub_bools_def)

lemma length_and_not: "length (and_not a b) = min (length a) (length b)"
  by (simp add: and_not_def)

lemma nth_and_not:
  "i < length a \<Longrightarrow> i < length b \<Longrightarrow> and_not a b ! i = (a ! i \<and> \<not> b ! i)"
  by (simp add: and_not_def)

lemma length_isleapyears: "length (isleapyears ys) = length ys"
  by (simp add: isleapyears_def)

lemma nth_isleapyears: "i < length ys \<Longrightarrow> isleapyears ys ! i = isleapyear (ys ! i)"
  by (simp add: isleapyears_def)

lemmas vec_simps = length_isub_where nth_isub_where length_isub_bools nth_isub_bools
  length_and_not nth_and_not length_isleapyears nth_isleapyears

lemma raw_missing_masked:
  "length r = w \<Longrightarrow> int w - int (count_valid r) = int (count_masked r)"
proof -
  assume "length r = w"
  moreover have "length (filter Not r) + length (filter (\<lambda>b. b) r) = length r"
    using sum_length_filter_compl [of "Not" r] by simp
  ultimately show ?thesis by (simp add: count_valid_def count_masked_def)
qed

lemma count_missing_mth_empty: "count_missing_mth [] yrs missing = Inl IndexError"
  by (simp add: count_missing_mth_def isub_listed_def err_bind_def)

lemma count_missing_mth_rows:
  assumes "length mths = n" "length yrs = n" "length missing = n" "0 < n"
  shows "\<exists>ms. count_missing_mth mths yrs missing = Inr ms \<and> length ms = n \<and>
           (\<forall>i<n. ms ! i = missing ! i - mth_pad (mths ! i) (yrs ! i))"
proof -
  have ne: "mths \<noteq> []" using assms(1,4) by auto
  show ?thesis
    using assms(1-3) ne
    by (simp add: count_missing_mth_def isub_listed_def err_bind_def Let_def vec_simps mth_pad_def)
qed

lemma count_missing_qtr_group:
  assumes "length mths = n" "length yrs = n" "length missing = n" "qtr_group_of c fr = Some g"
    and "0 < n"
  shows "\<exists>ms. count_missing_qtr c fr mths yrs missing = Inr ms \<and> length ms = n \<and>
           (\<forall>i<n. ms ! i = missing ! i - qtr_pad g (mths ! i) (yrs ! i))"
proof -
  have ne: "mths \<noteq> []" using assms(1,5) by auto
  consider (g1) "fr \<in> set (qtr_group1 c)" "g = 1"
    | (g2) "fr \<notin> set (qtr_group1 c)" "fr \<in> set (qtr_group2 c)" "g = 2"
    | (g3) "fr \<notin> set (qtr_group1 c)" "fr \<notin> set (qtr_group2 c)" "fr \<in> set (qtr_group3 c)" "g = 3"
    using assms(4) by (auto simp: qtr_group_of_def split: if_splits)
  then show ?thesis
  proof cases
    case g1
    then show ?thesis using assms(1-3)
      by (simp add: count_missing_qtr_def err_bind_def Let_def vec_simps qtr_pad_def)
  next
    case g2
    then show ?thesis using assms(1-3) ne
      by (simp add: count_missing_qtr_def isub_listed_def err_bind_def vec_simps qtr_pad_def)
  next
    case g3
    then show ?thesis using assms(1-3) ne
      by (simp add: count_missing_qtr_def isub_listed_def err_bind_def vec_simps qtr_pad_def)
  qed
qed

lemma count_missing_qtr_unbound:
  "qtr_group_of c fr = None \<Longrightarrow> count_missing_qtr c fr mths yrs missing = Inl UnboundLocalError"
  by (simp add: count_missing_qtr_def qtr_group_of_def err_bind_def split: if_splits)

subsection \<open>isleapyear\<close>

text \<open>
  Claim C10. For every integer year, and element by element over every sequence of
  integer years, isleapyear is true exactly when the year is divisible by 400, or
  divisible by 4 and not by 100; 2000 and 2004 are leap years, 1900 and 2001 are not.
\<close>

theorem isleapyear_spec:
  "(isleapyear y = (y mod 400 = 0 \<or> (y mod 4 = 0 \<and> y mod 100 \<noteq> 0)))
   \<and> length (isleapyears ys) = length ys
   \<and> (\<forall>i. i < length ys \<longrightarrow>
         isleapyears ys ! i = (ys ! i mod 400 = 0 \<or> (ys ! i mod 4 = 0 \<and> ys ! i mod 100 \<noteq> 0)))
   \<and> isleapyear 2000 \<and> \<not> isleapyear 1900 \<and> isleapyear 2004 \<and> \<not> isleapyear 2001"
proof -
  have pos: "\<And>z::int. (z mod 100 > 0) = (z mod 100 \<noteq> 0)"
  proof -
    fix z :: int
    have "0 \<le> z mod 100" by simp
    then show "(z mod 100 > 0) = (z mod 100 \<noteq> 0)" by linarith
  qed
  have one: "\<And>z. isleapyear z = (z mod 400 = 0 \<or> (z mod 4 = 0 \<and> z mod 100 \<noteq> 0))"
    unfolding isleapyear_def using pos by simp
  have ex: "isleapyear 2000 \<and> \<not> isleapyear 1900 \<and> isleapyear 2004 \<and> \<not> isleapyear 2001"
    by (simp add: isleapyear_def)
  show ?thesis using one ex by (simp add: isleapyears_def)
qed

theorem isleapyear_spec_witness:
  "isleapyear 1996 \<and> isleapyears [2000, 1900, 2004, 2001] = [True, False, True, False]"
proof -
  have a: "isleapyear 1996 = (1996 mod 400 = (0::int) \<or> ((1996::int) mod 4 = 0 \<and> (1996::int) mod 100 \<noteq> 0))"
    using isleapyear_spec [of 1996 "[]"] by (rule conjunct1)
  have b: "isleapyears [2000, 1900, 2004, 2001] = [True, False, True, False]"
    by (simp add: isleapyears_def isleapyear_def)
  show ?thesis using a b by simp
qed

subsection \<open>count\_missing\<close>

lemma count_missing_2d_monthly:
  assumes "c FR_MTH \<noteq> 0" "freq s div c FR_MTH = 1"
  shows "count_missing_2d c s 31 m =
     count_missing_mth (months s) (years s) (map (\<lambda>r. int 31 - int (count_valid r)) m)"
  using assms by (simp add: count_missing_2d_def period_freq_def err_bind_def)

lemma count_missing_2d_quarterly:
  assumes "c FR_QTR \<noteq> 0" "freq s div c FR_QTR = 1"
  shows "count_missing_2d c s 92 m =
     count_missing_qtr c (freq s) (months s) (years s) (map (\<lambda>r. int 92 - int (count_valid r)) m)"
  using assms by (simp add: count_missing_2d_def period_freq_def err_bind_def)

text \<open>
  Claim C2, as amended. For every 2-D TimeSeries with monthly frequency, trailing-axis
  width 31 and at least one row, count_missing returns for each row the number of its
  masked slots minus 1 for a 30-day month (April, June, September, November), minus 2
  for a February of a leap year, minus 3 for a February of another year, and minus 0 for
  any other month; so a row in which the masked slots are exactly the slots past the end
  of the month yields 0. (A series with no row raises at line 76.)
\<close>

theorem count_missing_monthly:
  assumes "wf_series s" "payload s = Rank2 31 d m" "m \<noteq> []"
    and "c FR_MTH \<noteq> 0" "freq s div c FR_MTH = 1"
  shows "\<exists>ms. count_missing c (TS s) = Inr (PerRow ms) \<and> length ms = length m \<and>
     (\<forall>i<length m. ms ! i = int (count_masked (m ! i)) - mth_pad (months s ! i) (years s ! i)) \<and>
     (\<forall>i<length m. int (count_masked (m ! i)) = mth_pad (months s ! i) (years s ! i) \<longrightarrow> ms ! i = 0)"
proof -
  let ?raw = "map (\<lambda>r. int 31 - int (count_valid r)) m"
  have len: "length (months s) = length m" "length (years s) = length m"
    and rows: "list_all (\<lambda>r. length r = 31) m"
    using assms(1,2) by (simp_all add: wf_series_def)
  have pos: "0 < length m" using assms(3) by simp
  obtain ms where ms: "count_missing_mth (months s) (years s) ?raw = Inr ms"
    "length ms = length m"
    "\<forall>i<length m. ms ! i = ?raw ! i - mth_pad (months s ! i) (years s ! i)"
    using count_missing_mth_rows [of "months s" "length m" "years s" ?raw] len pos by auto
  have res: "count_missing c (TS s) = Inr (PerRow ms)"
    using assms(2) count_missing_2d_monthly [of c s m] assms(4,5) ms(1)
    by (simp add: count_missing_def)
  have n: "ms ! i = int (count_masked (m ! i)) - mth_pad (months s ! i) (years s ! i)"
    if "i < length m" for i
  proof -
    have "length (m ! i) = 31" using rows that by (simp add: list_all_length)
    then have "?raw ! i = int (count_masked (m ! i))"
      using that raw_missing_masked [of "m ! i" 31] by simp
    then show ?thesis using ms(3) that by simp
  qed
  show ?thesis using res ms(2) n by simp
qed

theorem count_missing_monthly_witness:
  "count_missing lib_consts (TS mth_example) = Inr (PerRow [0, 0, 0, 0])"
proof -
  have wf: "wf_series mth_example" by code_simp
  have p: "payload mth_example = Rank2 31 (replicate 4 (replicate 31 0))
        [replicate 28 False @ replicate 3 True, replicate 29 False @ replicate 2 True,
         replicate 30 False @ replicate 1 True, replicate 31 False]"
    by (simp add: mth_example_def)
  have ne: "[replicate 28 False @ replicate 3 True, replicate 29 False @ replicate 2 True,
         replicate 30 False @ replicate 1 True, replicate 31 False] \<noteq> []" by simp
  have k: "lib_consts FR_MTH \<noteq> 0" by simp
  have f: "freq mth_example div lib_consts FR_MTH = 1" by (simp add: mth_example_def)
  obtain ms where ms: "count_missing lib_consts (TS mth_example) = Inr (PerRow ms)"
    "length ms = 4"
    "\<forall>i<4. ms ! i = int (count_masked ([replicate 28 False @ replicate 3 True, replicate 29 False @ replicate 2 True,
         replicate 30 False @ replicate 1 True, replicate 31 False] ! i)) - mth_pad (months mth_example ! i) (years mth_example ! i)"
    using count_missing_monthly [where c = lib_consts and s = mth_example, OF wf p ne k f] by auto
  have "ms ! 0 = 0" "ms ! 1 = 0" "ms ! 2 = 0" "ms ! 3 = 0"
    using ms(3) by (simp_all add: count_masked_def mth_pad_def isleapyear_def mth_example_def)
  then have "ms = [0, 0, 0, 0]"
    using ms(2) by (simp add: list_eq_iff_nth_eq nth_Cons' less_Suc_eq numeral_eq_Suc)
  then show ?thesis using ms(1) by simp
qed

text \<open>
  The claim as stated gives 3, 2, 1, 0 for February 2003, February 2004, April 2004 and
  May 2004 when no slot holding real data is missing. The function returns 0 for each
  of them when the slots past the end of the month are masked, and -3, -2, -1, 0 when
  no slot at all is masked.
\<close>

theorem count_missing_monthly_counterexample:
  "count_missing lib_consts (TS mth_example) \<noteq> Inr (PerRow [3, 2, 1, 0]) \<and>
   count_missing lib_consts (TS mth_example) = Inr (PerRow [0, 0, 0, 0]) \<and>
   count_missing lib_consts (TS mth_full_example) \<noteq> Inr (PerRow [3, 2, 1, 0]) \<and>
   count_missing lib_consts (TS mth_full_example) = Inr (PerRow [- 3, - 2, - 1, 0])"
  by code_simp

text \<open>
  Claim C1, as amended. For every 2-D TimeSeries with trailing-axis width 92, at least
  one row, and a quarterly frequency that the function lists in one of its three tuples
  (the codes of January, April and October; of February, May, August and November; of
  March, June, September and December), count_missing returns for each row the number of
  its masked slots minus: in the first tuple, 2 when the month of the row is 4; in the
  second, 1 when the month of the row is 2 or 11; in the third, 1 when the month of the
  row is 3 or 6; and in each tuple 1 more when the month of the row is the one of the
  quarter with February (4, 2 and 3) and the year of the row, read from the dates, is
  not a leap year. (A series with no row raises at lines 89 and 93.)
\<close>

theorem count_missing_quarterly:
  assumes "wf_series s" "payload s = Rank2 92 d m" "m \<noteq> []"
    and "c FR_QTR \<noteq> 0" "freq s div c FR_QTR = 1"
    and "qtr_group_of c (freq s) = Some g"
  shows "\<exists>ms. count_missing c (TS s) = Inr (PerRow ms) \<and> length ms = length m \<and>
     (\<forall>i<length m. ms ! i = int (count_masked (m ! i)) - qtr_pad g (months s ! i) (years s ! i))"
proof -
  let ?raw = "map (\<lambda>r. int 92 - int (count_valid r)) m"
  have len: "length (months s) = length m" "length (years s) = length m"
    and rows: "list_all (\<lambda>r. length r = 92) m"
    using assms(1,2) by (simp_all add: wf_series_def)
  obtain ms where ms: "count_missing_qtr c (freq s) (months s) (years s) ?raw = Inr ms"
    "length ms = length m"
    "\<forall>i<length m. ms ! i = ?raw ! i - qtr_pad g (months s ! i) (years s ! i)"
    using count_missing_qtr_group [of "months s" "length m" "years s" ?raw c "freq s" g] len
      assms(3,6)
    by auto
  have res: "count_missing c (TS s) = Inr (PerRow ms)"
    using assms(2) count_missing_2d_quarterly [of c s m] assms(4,5) ms(1)
    by (simp add: count_missing_def)
  have n: "ms ! i = int (count_masked (m ! i)) - qtr_pad g (months s ! i) (years s ! i)"
    if "i < length m" for i
  proof -
    have "length (m ! i) = 92" using rows that by (simp add: list_all_length)
    then have "?raw ! i = int (count_masked (m ! i))"
      using that raw_missing_masked [of "m ! i" 92] by simp
    then show ?thesis using ms(3) that by simp
  qed
  show ?thesis using res ms(2) n by simp
qed

theorem count_missing_quarterly_witness:
  "count_missing lib_consts (TS qtr_example) = Inr (PerRow [0]) \<and>
   map (qtr_group_of lib_consts) [2001, 2004, 2010, 2013, 2016, 2022] = replicate 6 (Some 1) \<and>
   map (qtr_group_of lib_consts) [2002, 2005, 2008, 2011, 2014, 2017, 2020, 2023] = replicate 8 (Some 2) \<and>
   map (qtr_group_of lib_consts) [2003, 2006, 2009, 2000, 2015, 2018, 2021, 2012] = replicate 8 (Some 3)"
proof -
  have wf: "wf_series qtr_example" by code_simp
  have p: "payload qtr_example = Rank2 92 [replicate 92 0] [replicate 91 False @ replicate 1 True]"
    by (simp add: qtr_example_def)
  have ne: "[replicate 91 False @ replicate 1 True] \<noteq> []" by simp
  have k: "lib_consts FR_QTR \<noteq> 0" by simp
  have f: "freq qtr_example div lib_consts FR_QTR = 1" by (simp add: qtr_example_def)
  have g: "qtr_group_of lib_consts (freq qtr_example) = Some 2" by code_simp
  obtain ms where ms: "count_missing lib_consts (TS qtr_example) = Inr (PerRow ms)"
    "length ms = 1"
    "\<forall>i<1. ms ! i = int (count_masked ([replicate 91 False @ replicate 1 True] ! i))
        - qtr_pad 2 (months qtr_example ! i) (years qtr_example ! i)"
    using count_missing_quarterly [where c = lib_consts and s = qtr_example, OF wf p ne k f g] by auto
  have "ms ! 0 = 0"
    using ms(3) by (simp add: count_masked_def qtr_pad_def isleapyear_def qtr_example_def)
  then have "ms = [0]"
    using ms(2) by (simp add: list_eq_iff_nth_eq)
  moreover have "map (qtr_group_of lib_consts) [2001, 2004, 2010, 2013, 2016, 2022] = replicate 6 (Some 1)"
    by code_simp
  moreover have "map (qtr_group_of lib_consts) [2002, 2005, 2008, 2011, 2014, 2017, 2020, 2023] = replicate 8 (Some 2)"
    by code_simp
  moreover have "map (qtr_group_of lib_consts) [2003, 2006, 2009, 2000, 2015, 2018, 2021, 2012] = replicate 8 (Some 3)"
    by code_simp
  ultimately show ?thesis using ms(1) by simp
qed

text \<open>
  The claim as stated subtracts at least 2 in the row of the quarter with February. At
  the frequency whose year ends in February, the quarter from December 2003 to February
  2004 has 91 days and one masked slot in its row of 92: the function subtracts 1 and
  returns 0. The codes of July are in none of the three tuples, and the function raises
  on them.
\<close>

theorem count_missing_quarterly_counterexample:
  "count_missing lib_consts (TS qtr_example) = Inr (PerRow [1 - 1]) \<and>
   count_missing lib_consts (TS qtr_example) \<noteq> Inr (PerRow [1 - qtr_pad_claimed False True True]) \<and>
   count_missing lib_consts (TS qtr_example) \<noteq> Inr (PerRow [1 - qtr_pad_claimed True True True]) \<and>
   count_missing lib_consts (TS (qtr_example\<lparr>freq := lib_consts FR_QTREJUL\<rparr>)) = Inl UnboundLocalError"
  by code_simp

lemma count_missing_quarterly_unlisted:
  assumes "payload s = Rank2 92 d m" "c FR_QTR \<noteq> 0" "freq s div c FR_QTR = 1"
    and "qtr_group_of c (freq s) = None"
  shows "count_missing c (TS s) = Inl UnboundLocalError"
  using assms count_missing_2d_quarterly [of c s m]
  by (simp add: count_missing_def count_missing_qtr_unbound)

subsection \<open>The failures of count\_missing and tsfromtxt\<close>





lemma count_missing_2d_cases:
  "count_missing_2d c s w m =
     (let missing = map (\<lambda>r. int w - int (count_valid r)) m in
      if w = 366 \<and> c FR_ANN = 0 then Inl ZeroDivisionError
      else if w = 366 \<and> freq s div c FR_ANN = 1
        then Inr (isub_bools (map Not (isleapyears (years s))) missing)
      else if w = 31 \<and> c FR_MTH = 0 then Inl ZeroDivisionError
      else if w = 31 \<and> freq s div c FR_MTH = 1
        then count_missing_mth (months s) (years s) missing
      else if w = 92 \<and> c FR_QTR = 0 then Inl ZeroDivisionError
      else if w = 92 \<and> freq s div c FR_QTR = 1
        then count_missing_qtr c (freq s) (months s) (years s) missing
      else if w \<noteq> 12 \<and> w \<noteq> 7 then Inl NotImplementedError
      else Inr missing)"
  by (simp add: count_missing_2d_def period_freq_def err_bind_def Let_def)












text \<open>
  At a width of 366, 31 or 92 the function tests the category of the frequency with
  \<^verbatim>\<open>freq//_c.FR_ANN == 1\<close>, \<^verbatim>\<open>freq//_c.FR_MTH == 1\<close> and \<^verbatim>\<open>freq//_c.FR_QTR == 1\<close>. In the
  numbering of the library the monthly code 3000 passes the quarterly test and the weekly
  code 4000 the monthly one: a monthly series of width 92 reaches line 95 with
  \<^verbatim>\<open>isfeb\<close> unbound, and a weekly series of width 31 is counted as a monthly one.
\<close>

lemma count_missing_category_test:
  "count_missing lib_consts (TS (qtr_example\<lparr>freq := lib_consts FR_MTH\<rparr>)) =
     Inl UnboundLocalError \<and>
   count_missing lib_consts (TS (mth_example\<lparr>freq := lib_consts FR_WK\<rparr>)) =
     Inr (PerRow [0, 0, 0, 0])"
  by code_simp

subsection \<open>tsfromtxt\<close>






subsection \<open>guess\_freq\<close>





subsection \<open>accept\_atmost\_missing\<close>

lemma count_missing_2d_no_row:
  assumes "months s = []" "years s = []" "count_missing_2d c s w [] = Inr ms"
  shows "ms = []"
  using assms
  by (auto simp: count_missing_2d_cases count_missing_mth_empty count_missing_qtr_def
      err_bind_def isub_listed_def isub_where_def isub_bools_def and_not_def isleapyears_def
      split: if_splits)

lemma count_missing_2d_pointwise:
  assumes len: "length (months s) = n" "length (years s) = n" "length m = n" "length m' = n"
    and res: "count_missing_2d c s w m = Inr ms"
  shows "\<exists>ms'. count_missing_2d c s w m' = Inr ms' \<and> length ms = n \<and> length ms' = n \<and>
     (\<forall>i<n. ms' ! i - ms ! i =
        (int w - int (count_valid (m' ! i))) - (int w - int (count_valid (m ! i))))"
proof (cases "n = 0")
  case True
  then have e: "months s = []" "years s = []" "m = []" "m' = []" using len by simp_all
  have "ms = []" using count_missing_2d_no_row [OF e(1,2)] res e(3) by simp
  then show ?thesis using res e True by simp
next
  case False
  then have pos: "0 < n" by simp
  let ?raw = "\<lambda>m. map (\<lambda>r. int w - int (count_valid r)) m"
  consider (ann) "w = 366" "c FR_ANN \<noteq> 0" "freq s div c FR_ANN = 1"
    | (mth) "w = 31" "c FR_MTH \<noteq> 0" "freq s div c FR_MTH = 1"
    | (qtr) "w = 92" "c FR_QTR \<noteq> 0" "freq s div c FR_QTR = 1"
    | (raw) "w = 12 \<or> w = 7"
    using res by (auto simp: count_missing_2d_cases Let_def split: if_splits)
  then show ?thesis
  proof cases
    case ann
    then have "count_missing_2d c s w m = Inr (isub_bools (map Not (isleapyears (years s))) (?raw m))"
      "count_missing_2d c s w m' = Inr (isub_bools (map Not (isleapyears (years s))) (?raw m'))"
      by (simp_all add: count_missing_2d_cases)
    then show ?thesis using res len by (auto simp: vec_simps)
  next
    case mth
    then have e: "count_missing_2d c s w m = count_missing_mth (months s) (years s) (?raw m)"
      "count_missing_2d c s w m' = count_missing_mth (months s) (years s) (?raw m')"
      by (simp_all add: count_missing_2d_cases)
    obtain x where x: "count_missing_mth (months s) (years s) (?raw m) = Inr x"
      "length x = n" "\<forall>i<n. x ! i = ?raw m ! i - mth_pad (months s ! i) (years s ! i)"
      using count_missing_mth_rows [of "months s" n "years s" "?raw m"] len pos by auto
    obtain y where y: "count_missing_mth (months s) (years s) (?raw m') = Inr y"
      "length y = n" "\<forall>i<n. y ! i = ?raw m' ! i - mth_pad (months s ! i) (years s ! i)"
      using count_missing_mth_rows [of "months s" n "years s" "?raw m'"] len pos by auto
    have "x = ms" using x(1) e(1) res by simp
    then show ?thesis using x y e(2) len by auto
  next
    case qtr
    then have e: "count_missing_2d c s w m = count_missing_qtr c (freq s) (months s) (years s) (?raw m)"
      "count_missing_2d c s w m' = count_missing_qtr c (freq s) (months s) (years s) (?raw m')"
      by (simp_all add: count_missing_2d_cases)
    obtain g where g: "qtr_group_of c (freq s) = Some g"
      using res e(1) count_missing_qtr_unbound [of c "freq s" "months s" "years s" "?raw m"]
      by (cases "qtr_group_of c (freq s)") auto
    obtain x where x: "count_missing_qtr c (freq s) (months s) (years s) (?raw m) = Inr x"
      "length x = n" "\<forall>i<n. x ! i = ?raw m ! i - qtr_pad g (months s ! i) (years s ! i)"
      using count_missing_qtr_group [of "months s" n "years s" "?raw m" c "freq s" g] len g pos
      by auto
    obtain y where y: "count_missing_qtr c (freq s) (months s) (years s) (?raw m') = Inr y"
      "length y = n" "\<forall>i<n. y ! i = ?raw m' ! i - qtr_pad g (months s ! i) (years s ! i)"
      using count_missing_qtr_group [of "months s" n "years s" "?raw m'" c "freq s" g] len g pos
      by auto
    have "x = ms" using x(1) e(1) res by simp
    then show ?thesis using x y e(2) len by auto
  next
    case raw
    then have "count_missing_2d c s w m = Inr (?raw m)" "count_missing_2d c s w m' = Inr (?raw m')"
      by (auto simp: count_missing_2d_cases)
    then show ?thesis using res len by auto
  qed
qed

lemma count_missing_2d_frame:
  "count_missing_2d c (s\<lparr>payload := p\<rparr>) w m = count_missing_2d c s w m"
  by (simp add: count_missing_2d_cases Let_def cong: if_cong)

lemma length_mask_where: "length (mask_where bs rs) = length rs"
  by (induction bs rs rule: mask_where.induct) simp_all

lemma nth_mask_where:
  "i < length rs \<Longrightarrow>
   mask_where bs rs ! i = (if i < length bs \<and> bs ! i then map (\<lambda>_. True) (rs ! i) else rs ! i)"
proof (induction bs rs arbitrary: i rule: mask_where.induct)
  case (1 b bs r rs)
  then show ?case by (cases i) simp_all
qed simp_all

lemma accept_atmost_missing_rank2:
  assumes "payload s = Rank2 w d mk"
  shows "accept_atmost_missing fmul c (TS s) max_missing strict =
     (case count_missing_2d c s w mk of
        Inl e \<Rightarrow> Inl e
      | Inr ms \<Rightarrow> Inr (s\<lparr>payload := Rank2 w d
          (mask_where (map (over strict (threshold fmul max_missing w)) ms) mk)\<rparr>))"
  using assms
  by (cases "count_missing_2d c s w mk")
    (simp_all add: accept_atmost_missing_def count_missing_def err_bind_def setitem_masked_def)

lemma accept_atmost_missing_rank1:
  assumes "payload s = Rank1 d m"
  shows "accept_atmost_missing fmul c (TS s) max_missing strict =
     Inr (s\<lparr>payload := Rank1 d
       (if over strict (threshold fmul max_missing (length d))
             (int (length d) - int (count_valid m))
        then map (\<lambda>_. True) m else m)\<rparr>)"
  using assms
  by (simp add: accept_atmost_missing_def count_missing_def err_bind_def setitem_masked_def)

lemma count_valid_all_masked: "count_valid (map (\<lambda>_. True) m) = 0"
  by (simp add: count_valid_def)

lemma np_round_nearest: "\<bar>of_int (np_round x) - x\<bar> \<le> \<bar>of_int k - x\<bar>"
proof -
  let ?f = "\<lfloor>x\<rfloor>"
  have fl: "of_int ?f \<le> x" "x < of_int ?f + 1" by linarith+
  have k: "of_int k \<le> (of_int ?f :: rat) \<or> (of_int ?f :: rat) + 1 \<le> of_int k"
  proof (cases "k \<le> ?f")
    case True
    then show ?thesis by simp
  next
    case False
    then have "?f + 1 \<le> k" by simp
    then have "(of_int (?f + 1) :: rat) \<le> of_int k" by (simp only: of_int_le_iff)
    then show ?thesis by simp
  qed
  define r where "r = x - of_int ?f"
  have nr: "np_round x = (if r < 1 / 2 then ?f else if 1 / 2 < r then ?f + 1
      else if even ?f then ?f else ?f + 1)"
    by (simp only: np_round_def Let_def r_def)
  have "(np_round x = ?f \<and> r \<le> 1 / 2) \<or> (np_round x = ?f + 1 \<and> 1 / 2 \<le> r)"
  proof (cases "r < 1 / 2")
    case True
    then show ?thesis using nr by simp
  next
    case False
    note nlt = this
    show ?thesis
    proof (cases "1 / 2 < r")
      case True
      then show ?thesis using nr nlt by simp
    next
      case False
      then have "r = 1 / 2" using nlt by simp
      then show ?thesis using nr by simp
    qed
  qed
  then consider (lo) "np_round x = ?f" "x - of_int ?f \<le> 1 / 2"
    | (hi) "np_round x = ?f + 1" "1 / 2 \<le> x - of_int ?f"
    unfolding r_def by blast
  then show ?thesis
  proof cases
    case lo
    have "\<bar>of_int ?f - x\<bar> \<le> \<bar>of_int k - x\<bar>"
      using k
    proof
      assume "of_int k \<le> (of_int ?f :: rat)"
      then show ?thesis using fl lo(2) by linarith
    next
      assume "(of_int ?f :: rat) + 1 \<le> of_int k"
      then show ?thesis using fl lo(2) by linarith
    qed
    then show ?thesis by (simp only: lo(1))
  next
    case hi
    have "\<bar>(of_int ?f + 1) - x\<bar> \<le> \<bar>of_int k - x\<bar>"
      using k
    proof
      assume "of_int k \<le> (of_int ?f :: rat)"
      then show ?thesis using fl hi(2) by linarith
    next
      assume "(of_int ?f :: rat) + 1 \<le> of_int k"
      then show ?thesis using fl hi(2) by linarith
    qed
    then show ?thesis by (simp only: hi(1) of_int_add of_int_1)
  qed
qed

lemma np_round_half: "even w \<Longrightarrow> np_round (of_nat w / 2) = int w div 2"
proof -
  assume "even w"
  then obtain j where j: "w = 2 * j" by (auto elim: evenE)
  have "(of_nat w / 2 :: rat) = of_int (int j)" using j by simp
  then have "np_round (of_nat w / 2) = int j"
    by (simp only: np_round_def Let_def floor_of_int) simp
  then show ?thesis using j by simp
qed

lemma count_missing_rank2:
  "payload s = Rank2 w d mk \<Longrightarrow>
   count_missing c (TS s) = Inr (PerRow ms) \<longleftrightarrow> count_missing_2d c s w mk = Inr ms"
  by (cases "count_missing_2d c s w mk") (simp_all add: count_missing_def)

text \<open>
  Claim C5. For every TimeSeries (of rank 2, whose rows the claim speaks of) and every
  threshold max_missing, accept_atmost_missing turns a max_missing below 1 into a count
  by rounding the product of max_missing and the trailing-axis width to the nearest
  integer, and uses it as it is otherwise; it masks a row entirely if and only if the
  missing count of the row, as count_missing gives it, is strictly greater than the
  threshold when strict is true, or greater than or equal to it when strict is false,
  and leaves every other row as it is; in particular a row with exactly half of its
  slots counted missing, under the threshold 0.5, is masked when not strict and left
  untouched when strict.
\<close>

theorem accept_atmost_missing_rows:
  assumes "wf_series s" and "payload s = Rank2 w d mk"
    and "count_missing c (TS s) = Inr (PerRow ms)"
  shows "\<exists>mk' thr. accept_atmost_missing fmul c (TS s) max_missing strict =
         Inr (s\<lparr>payload := Rank2 w d mk'\<rparr>) \<and>
     thr = (if max_missing < 1 then of_int (np_round (fmul max_missing w)) else max_missing) \<and>
     (\<forall>k. \<bar>of_int (np_round (fmul max_missing w)) - fmul max_missing w\<bar>
             \<le> \<bar>of_int k - fmul max_missing w\<bar>) \<and>
     length mk' = length mk \<and> length ms = length mk \<and>
     (\<forall>i<length mk.
        mk' ! i = (if (if strict then thr < of_int (ms ! i) else thr \<le> of_int (ms ! i))
                   then map (\<lambda>_. True) (mk ! i) else mk ! i)) \<and>
     (max_missing = 1 / 2 \<and> fmul (1 / 2) w = of_nat w / 2 \<and> even w \<longrightarrow>
        (\<forall>i<length mk. ms ! i = int w div 2 \<longrightarrow>
           mk' ! i = (if strict then mk ! i else map (\<lambda>_. True) (mk ! i))))"
proof -
  let ?thr = "threshold fmul max_missing w"
  let ?mk' = "mask_where (map (over strict ?thr) ms) mk"
  have len: "length (months s) = length mk" "length (years s) = length mk"
    using assms(1,2) by (simp_all add: wf_series_def)
  have c2: "count_missing_2d c s w mk = Inr ms"
    using assms(2,3) by (simp add: count_missing_rank2)
  have lms: "length ms = length mk"
    using count_missing_2d_pointwise [OF len refl refl c2] by auto
  have res: "accept_atmost_missing fmul c (TS s) max_missing strict =
      Inr (s\<lparr>payload := Rank2 w d ?mk'\<rparr>)"
    using c2 by (simp add: accept_atmost_missing_rank2 [OF assms(2)])
  have thr: "?thr = (if max_missing < 1 then of_int (np_round (fmul max_missing w)) else max_missing)"
    by (simp add: threshold_def)
  have rows: "?mk' ! i = (if (if strict then ?thr < of_int (ms ! i) else ?thr \<le> of_int (ms ! i))
                   then map (\<lambda>_. True) (mk ! i) else mk ! i)" if "i < length mk" for i
    using that lms by (simp add: nth_mask_where over_def)
  have half: "?mk' ! i = (if strict then mk ! i else map (\<lambda>_. True) (mk ! i))"
    if "max_missing = 1 / 2" "fmul (1 / 2) w = of_nat w / 2" "even w"
      "i < length mk" "ms ! i = int w div 2" for i
  proof -
    have "fmul max_missing w = of_nat w / 2" using that(1,2) by (simp only:)
    then have "np_round (fmul max_missing w) = int w div 2"
      using np_round_half [OF that(3)] by (simp only:)
    moreover have "max_missing < 1" using that(1) by simp
    ultimately have "?thr = of_int (int w div 2)"
      by (simp only: threshold_def if_True)
    then show ?thesis using rows [OF that(4)] that(5) by simp
  qed
  show ?thesis
    using res thr rows half lms np_round_nearest [of "fmul max_missing w"]
    by (intro exI [of _ ?mk'] exI [of _ ?thr]) (simp add: length_mask_where)
qed


theorem accept_atmost_missing_rows_witness:
  "\<exists>mk'. accept_atmost_missing exact_mul lib_consts (TS half_example) (1 / 2) False =
       Inr (half_example\<lparr>payload := Rank2 12 [[1, 2, 3, 4, 5, 6, 7, 8, 9, 10, 11, 12],
                                        [1, 2, 3, 4, 5, 6, 7, 8, 9, 10, 11, 12]] mk'\<rparr>) \<and>
     length mk' = 2 \<and>
     mk' ! 0 = [True, True, True, True, True, True, True, True, True, True, True, True]"
proof -
  let ?mk = "[[False, False, False, False, False, False, True, True, True, True, True, True],
         [False, False, False, False, False, False, False, True, True, True, True, True]]"
  have wf: "wf_series half_example" by code_simp
  have p: "payload half_example = Rank2 12 [[1, 2, 3, 4, 5, 6, 7, 8, 9, 10, 11, 12],
      [1, 2, 3, 4, 5, 6, 7, 8, 9, 10, 11, 12]] ?mk"
    by (simp add: half_example_def)
  have cm: "count_missing lib_consts (TS half_example) = Inr (PerRow [6, 5])"
    by code_simp
  have e: "exact_mul (1 / 2) 12 = of_nat 12 / 2" by (simp add: exact_mul_def)
  obtain mk' where mk': "accept_atmost_missing exact_mul lib_consts (TS half_example) (1 / 2) False =
         Inr (half_example\<lparr>payload := Rank2 12 [[1, 2, 3, 4, 5, 6, 7, 8, 9, 10, 11, 12],
            [1, 2, 3, 4, 5, 6, 7, 8, 9, 10, 11, 12]] mk'\<rparr>)"
      "length mk' = length ?mk"
      "\<forall>i<length ?mk. [6, 5] ! i = int 12 div 2 \<longrightarrow> mk' ! i = map (\<lambda>_. True) (?mk ! i)"
    using accept_atmost_missing_rows [OF wf p cm, of exact_mul "1 / 2" False] e by auto
  have "mk' ! 0 = [True, True, True, True, True, True, True, True, True, True, True, True]"
    using mk'(3) by simp
  then show ?thesis using mk'(1,2) by auto
qed

text \<open>
  Claim C7. accept_atmost_missing is idempotent: for every TimeSeries, threshold and
  strictness flag, applying it twice with the same arguments gives the result of
  applying it once, the same values under the same mask (and the same failure, if it
  fails).
\<close>

theorem accept_atmost_missing_idempotent:
  assumes "wf_series s"
  shows "err_bind (accept_atmost_missing fmul c (TS s) max_missing strict)
           (\<lambda>r. accept_atmost_missing fmul c (TS r) max_missing strict) =
         accept_atmost_missing fmul c (TS s) max_missing strict \<and>
         err_bind (accept_atmost_missing fmul c (NotTS :: 'a pyobj) max_missing strict)
           (\<lambda>r. accept_atmost_missing fmul c (TS r) max_missing strict) =
         accept_atmost_missing fmul c NotTS max_missing strict"
proof
  show "err_bind (accept_atmost_missing fmul c (NotTS :: 'a pyobj) max_missing strict)
           (\<lambda>r. accept_atmost_missing fmul c (TS r) max_missing strict) =
         accept_atmost_missing fmul c NotTS max_missing strict"
    by (simp add: accept_atmost_missing_def err_bind_def)
  show "err_bind (accept_atmost_missing fmul c (TS s) max_missing strict)
           (\<lambda>r. accept_atmost_missing fmul c (TS r) max_missing strict) =
         accept_atmost_missing fmul c (TS s) max_missing strict"
  proof (cases "payload s")
    case (Rank0 x b)
    then show ?thesis by (simp add: accept_atmost_missing_def count_missing_def err_bind_def)
  next
    case (RankHigh k)
    then show ?thesis by (simp add: accept_atmost_missing_def count_missing_def err_bind_def)
  next
    case (Rank1 d m)
    let ?sel = "over strict (threshold fmul max_missing (length d))"
    let ?m' = "if ?sel (int (length d) - int (count_valid m)) then map (\<lambda>_. True) m else m"
    let ?r = "s\<lparr>payload := Rank1 d ?m'\<rparr>"
    have one: "accept_atmost_missing fmul c (TS s) max_missing strict = Inr ?r"
      by (rule accept_atmost_missing_rank1 [OF Rank1])
    have pr: "payload ?r = Rank1 d ?m'" by simp
    have "(if ?sel (int (length d) - int (count_valid ?m')) then map (\<lambda>_. True) ?m' else ?m') = ?m'"
      by simp
    then have two: "accept_atmost_missing fmul c (TS ?r) max_missing strict = Inr ?r"
      unfolding accept_atmost_missing_rank1 [OF pr] by simp
    show ?thesis unfolding one using two by (simp add: err_bind_def)
  next
    case (Rank2 w d mk)
    let ?sel = "over strict (threshold fmul max_missing w)"
    have len: "length (months s) = length mk" "length (years s) = length mk"
      using assms Rank2 by (simp_all add: wf_series_def)
    show ?thesis
    proof (cases "count_missing_2d c s w mk")
      case (Inl e)
      then show ?thesis
        by (simp add: accept_atmost_missing_rank2 [OF Rank2] err_bind_def)
    next
      case (Inr ms)
      let ?mk' = "mask_where (map ?sel ms) mk"
      let ?r = "s\<lparr>payload := Rank2 w d ?mk'\<rparr>"
      have one: "accept_atmost_missing fmul c (TS s) max_missing strict = Inr ?r"
        using Inr by (simp add: accept_atmost_missing_rank2 [OF Rank2])
      have pr: "payload ?r = Rank2 w d ?mk'" by simp
      obtain ms' where ms': "count_missing_2d c s w ?mk' = Inr ms'"
        "length ms = length mk" "length ms' = length mk"
        "\<forall>i<length mk. ms' ! i - ms ! i =
           (int w - int (count_valid (?mk' ! i))) - (int w - int (count_valid (mk ! i)))"
        using count_missing_2d_pointwise [OF len refl _ Inr, of ?mk'] length_mask_where [of "map ?sel ms" mk]
        by auto
      have same: "mask_where (map ?sel ms') ?mk' = ?mk'"
      proof (rule nth_equalityI)
        show "length (mask_where (map ?sel ms') ?mk') = length ?mk'"
          by (simp add: length_mask_where)
        fix i assume "i < length (mask_where (map ?sel ms') ?mk')"
        then have i: "i < length mk" by (simp add: length_mask_where)
        show "mask_where (map ?sel ms') ?mk' ! i = ?mk' ! i"
        proof (cases "?sel (ms ! i)")
          case True
          then have "?mk' ! i = map (\<lambda>_. True) (mk ! i)"
            using i ms'(2) by (simp add: nth_mask_where)
          then show ?thesis using i ms'(3) by (simp add: nth_mask_where length_mask_where)
        next
          case False
          then have u: "?mk' ! i = mk ! i" using i ms'(2) by (simp add: nth_mask_where)
          have "ms' ! i = ms ! i" using ms'(4) [rule_format, OF i] u by simp
          then show ?thesis using False u i ms'(3)
            by (simp add: nth_mask_where length_mask_where)
        qed
      qed
      have two: "accept_atmost_missing fmul c (TS ?r) max_missing strict = Inr ?r"
        unfolding accept_atmost_missing_rank2 [OF pr] count_missing_2d_frame
        using ms'(1) same by simp
      show ?thesis unfolding one using two by (simp add: err_bind_def)
    qed
  qed
qed

theorem accept_atmost_missing_idempotent_witness:
  "accept_atmost_missing exact_mul lib_consts (TS half_example) (1 / 2) False =
     Inr half_masked_example \<and>
   accept_atmost_missing exact_mul lib_consts (TS half_masked_example) (1 / 2) False =
     Inr half_masked_example"
proof -
  have wf: "wf_series half_example" by code_simp
  have one: "accept_atmost_missing exact_mul lib_consts (TS half_example) (1 / 2) False =
     Inr half_masked_example"
    by code_simp
  have "err_bind (accept_atmost_missing exact_mul lib_consts (TS half_example) (1 / 2) False)
           (\<lambda>r. accept_atmost_missing exact_mul lib_consts (TS r) (1 / 2) False) =
         accept_atmost_missing exact_mul lib_consts (TS half_example) (1 / 2) False"
    using accept_atmost_missing_idempotent [OF wf, of exact_mul lib_consts "1 / 2" False]
    by (rule conjunct1)
  then show ?thesis unfolding one by (simp add: err_bind_def)
qed

subsection \<open>convert\_to\_annual\<close>

lemma nat_times_int: "nat (numeral k * int m) = numeral k * m"
  by (simp add: nat_mult_distrib)

lemma py_bound_59: "py_bound (59 * int m) (366 * m) = 59 * m"
  by (simp add: py_bound_def nat_times_int)

lemma py_bound_60: "py_bound (60 * int m) (366 * m) = 60 * m"
  by (simp add: py_bound_def nat_times_int)

lemma py_bound_neg: "0 < m \<Longrightarrow> py_bound (- int m) (366 * m) = 365 * m"
  by (simp add: py_bound_def)

lemma set_slice_shift:
  assumes "length row = 366 * m" "0 < m"
  shows "set_slice_from (int (60 * m)) (py_slice (int (59 * m)) (int (59 * m) - int (60 * m)) row) row
     = Inr (take (60 * m) row @ take (306 * m) (drop (59 * m) row))"
proof -
  have neg: "int (59 * m) - int (60 * m) = - int m" by simp
  have sl: "py_slice (int (59 * m)) (- int m) row = take (306 * m) (drop (59 * m) row)"
    using assms by (simp add: py_slice_def py_bound_59 py_bound_neg Let_def)
  have l: "length (take (306 * m) (drop (59 * m) row)) = 306 * m"
    using assms by simp
  show ?thesis
    unfolding neg sl using assms l
    by (simp add: set_slice_from_def py_bound_60 Let_def)
qed

lemma mask_slice_feb29:
  assumes "length mk = 366 * m" "0 < m"
  shows "mask_slice (int (59 * m)) (int (60 * m)) mk =
     take (59 * m) mk @ replicate m True @ drop (60 * m) mk"
proof -
  have "map (\<lambda>_. True) (take (60 * m - 59 * m) (drop (59 * m) mk)) = replicate m True"
    using assms by (simp add: map_replicate_const)
  then show ?thesis
    using assms by (simp add: mask_slice_def py_bound_59 py_bound_60 Let_def)
qed

lemma shift_row_366:
  assumes "length d = 366 * m" "length mk = 366 * m" "0 < m"
  shows "shift_row (int (59 * m)) (int (60 * m)) (d, mk) = Inr (shifted_data m d, shifted_mask m mk)"
proof -
  let ?m1 = "take (60 * m) mk @ take (306 * m) (drop (59 * m) mk)"
  have l: "length ?m1 = 366 * m" using assms by simp
  have "mask_slice (int (59 * m)) (int (60 * m)) ?m1 = shifted_mask m mk"
    unfolding mask_slice_feb29 [OF l assms(3)] shifted_mask_def using assms
    by (simp add: min_def)
  then show ?thesis
    using set_slice_shift [OF assms(1,3)] set_slice_shift [OF assms(2,3)]
    by (simp add: shift_row_def err_bind_def shifted_data_def)
qed


lemma length_shifted_data: "length row = 366 * m \<Longrightarrow> length (shifted_data m row) = 366 * m"
  by (simp add: shifted_data_def)

lemma length_shifted_mask: "length mk = 366 * m \<Longrightarrow> length (shifted_mask m mk) = 366 * m"
  by (simp add: shifted_mask_def)

lemma nth_shifted_data:
  assumes "length row = 366 * m" "k < 366 * m"
  shows "shifted_data m row ! k = (if k < 60 * m then row ! k else row ! (k - m))"
proof (cases "k < 60 * m")
  case True
  then show ?thesis using assms by (simp add: shifted_data_def nth_append)
next
  case False
  then have "59 * m + (k - 60 * m) = k - m" by simp
  then show ?thesis using assms False by (simp add: shifted_data_def nth_append)
qed

lemma nth_shifted_mask:
  assumes "length mk = 366 * m" "k < 366 * m"
  shows "shifted_mask m mk ! k =
     (if k < 59 * m then mk ! k else if k < 60 * m then True else mk ! (k - m))"
proof -
  consider (a) "k < 59 * m" | (b) "59 * m \<le> k" "k < 60 * m" | (c) "60 * m \<le> k" by linarith
  then show ?thesis
  proof cases
    case a
    then show ?thesis using assms by (simp add: shifted_mask_def nth_append)
  next
    case b
    then have "k - 59 * m < m" by simp
    then show ?thesis using assms b by (simp add: shifted_mask_def nth_append)
  next
    case c
    then have "59 * m + (k - 59 * m - m) = k - m" "\<not> k - 59 * m < m" by simp_all
    then show ?thesis using assms c by (simp add: shifted_mask_def nth_append)
  qed
qed

lemma shift_rows_366:
  assumes "list_all (\<lambda>row. length (fst row) = 366 * m \<and> length (snd row) = 366 * m) rows"
    and "0 < m"
  shows "\<exists>rows'. shift_rows (int (59 * m)) (int (60 * m)) ls rows = Inr rows' \<and>
     length rows' = length rows \<and>
     (\<forall>i<length rows. rows' ! i =
        (if i < length ls \<and> \<not> ls ! i
         then (shifted_data m (fst (rows ! i)), shifted_mask m (snd (rows ! i)))
         else rows ! i))"
  using assms(1)
proof (induction rows arbitrary: ls)
  case Nil
  then show ?case by (cases ls) simp_all
next
  case (Cons row rows)
  show ?case
  proof (cases ls)
    case Nil
    then show ?thesis by simp
  next
    case (Cons leap ls')
    obtain d mk where row: "row = (d, mk)" by (cases row)
    have l: "length d = 366 * m" "length mk = 366 * m" using Cons.prems row by simp_all
    obtain rows' where r: "shift_rows (int (59 * m)) (int (60 * m)) ls' rows = Inr rows'"
      "length rows' = length rows"
      "\<forall>i<length rows. rows' ! i =
          (if i < length ls' \<and> \<not> ls' ! i
           then (shifted_data m (fst (rows ! i)), shifted_mask m (snd (rows ! i)))
           else rows ! i)"
      using Cons.IH [of ls'] Cons.prems by auto
    let ?row1 = "if leap then row else (shifted_data m d, shifted_mask m mk)"
    have e: "shift_rows (int (59 * m)) (int (60 * m)) (leap # ls') (row # rows) = Inr (?row1 # rows')"
      using r(1) row shift_row_366 [OF l assms(2)] by (simp add: err_bind_def)
    have "(?row1 # rows') ! i =
          (if i < length (leap # ls') \<and> \<not> (leap # ls') ! i
           then (shifted_data m (fst ((row # rows) ! i)), shifted_mask m (snd ((row # rows) ! i)))
           else (row # rows) ! i)" if "i < length (row # rows)" for i
      using that r(3) row by (cases i) simp_all
    then show ?thesis using e r(2) Cons by simp
  qed
qed

lemma leap_offsets_mult:
  "subday_mult c fr = Some m \<Longrightarrow>
   leap_offsets c fr = Some (int (59 * m), int (60 * m)) \<and> 0 < m \<and>
   (m = 1 \<or> m = 24 \<or> m = 1440 \<or> m = 86400)"
  by (auto simp: subday_mult_def leap_offsets_def split: if_splits)

text \<open>
  Claim C3. For every daily-or-finer TimeSeries, convert_to_annual takes the series
  reshaped into rows of width 366*m (m = 1 for daily, 24 for hourly, 1440 for minute,
  86400 for second; the reshaping is the conversion to the annual frequency, a method of
  the container) and, for exactly the rows whose year is not a leap year, moves the data
  and their mask from the slots [59*m, 365*m) into the slots [60*m, 366*m) and masks the
  slots [59*m, 60*m); leap-year rows, and all slots before 59*m, are left unchanged. So
  the slot that stood at offset j of a non-leap year stands at offset j before the 29th
  of February and at offset j + m after it, as in a leap year, and no slot outside
  [59*m, 60*m) is masked that was not masked where it came from.
\<close>

theorem convert_to_annual_shift:
  assumes "subday_mult c (freq s) = Some m" and "c FR_DAY \<le> freq s"
    and "convertA s = Inr a" and "payload a = Rank2 (366 * m) d mk" and "wf_series a"
  shows "\<exists>d' mk'. convert_to_annual c convertA s = Inr (a\<lparr>payload := Rank2 (366 * m) d' mk'\<rparr>) \<and>
     (m = 1 \<or> m = 24 \<or> m = 1440 \<or> m = 86400) \<and>
     leap_offsets c (freq s) = Some (int (59 * m), int (60 * m)) \<and>
     length d' = length d \<and> length mk' = length mk \<and>
     (\<forall>i<length d. length (d' ! i) = 366 * m \<and> length (mk' ! i) = 366 * m \<and>
        (isleapyear (years a ! i) \<longrightarrow> d' ! i = d ! i \<and> mk' ! i = mk ! i) \<and>
        (\<not> isleapyear (years a ! i) \<longrightarrow>
           (\<forall>k<366 * m.
              d' ! i ! k = (if k < 60 * m then d ! i ! k else d ! i ! (k - m)) \<and>
              mk' ! i ! k = (if k < 59 * m then mk ! i ! k
                             else if k < 60 * m then True else mk ! i ! (k - m)))))"
proof -
  let ?n = "length d"
  have lo: "leap_offsets c (freq s) = Some (int (59 * m), int (60 * m))" "0 < m"
    "m = 1 \<or> m = 24 \<or> m = 1440 \<or> m = 86400"
    using leap_offsets_mult [OF assms(1)] by simp_all
  have wf: "length mk = ?n" "length (years a) = ?n"
    "list_all (\<lambda>r. length r = 366 * m) d" "list_all (\<lambda>r. length r = 366 * m) mk"
    using assms(4,5) by (simp_all add: wf_series_def)
  have rowlen: "length (d ! i) = 366 * m" "length (mk ! i) = 366 * m" if "i < ?n" for i
    using wf that by (simp_all add: list_all_length)
  have all: "list_all (\<lambda>row. length (fst row) = 366 * m \<and> length (snd row) = 366 * m) (zip d mk)"
    using wf rowlen by (simp add: list_all_length)
  obtain rows' where r: "shift_rows (int (59 * m)) (int (60 * m)) (isleapyears (years a)) (zip d mk)
        = Inr rows'" "length rows' = ?n"
    "\<forall>i<?n. rows' ! i =
        (if \<not> isleapyear (years a ! i) then (shifted_data m (d ! i), shifted_mask m (mk ! i))
         else (d ! i, mk ! i))"
    using shift_rows_366 [OF all lo(2), of "isleapyears (years a)"] wf
    by (auto simp: length_isleapyears nth_isleapyears)
  let ?d' = "map fst rows'" and ?mk' = "map snd rows'"
  have res: "convert_to_annual c convertA s = Inr (a\<lparr>payload := Rank2 (366 * m) ?d' ?mk'\<rparr>)"
    using assms(2,3,4) lo(1) r(1) by (simp add: convert_to_annual_def err_bind_def Let_def)
  have row: "length (?d' ! i) = 366 * m \<and> length (?mk' ! i) = 366 * m \<and>
        (isleapyear (years a ! i) \<longrightarrow> ?d' ! i = d ! i \<and> ?mk' ! i = mk ! i) \<and>
        (\<not> isleapyear (years a ! i) \<longrightarrow>
           (\<forall>k<366 * m.
              ?d' ! i ! k = (if k < 60 * m then d ! i ! k else d ! i ! (k - m)) \<and>
              ?mk' ! i ! k = (if k < 59 * m then mk ! i ! k
                             else if k < 60 * m then True else mk ! i ! (k - m))))"
    if i: "i < ?n" for i
  proof (cases "isleapyear (years a ! i)")
    case True
    then show ?thesis using r(2,3) i rowlen [OF i] by simp
  next
    case False
    then have "?d' ! i = shifted_data m (d ! i)" "?mk' ! i = shifted_mask m (mk ! i)"
      using r(2,3) i by simp_all
    then show ?thesis
      using False rowlen [OF i]
      by (simp add: length_shifted_data length_shifted_mask nth_shifted_data nth_shifted_mask)
  qed
  show ?thesis
    using res lo r(2) wf(1) row
    by (intro exI [of _ ?d'] exI [of _ ?mk']) simp
qed

theorem convert_to_annual_shift_witness:
  "\<exists>d' mk'. convert_to_annual lib_consts (\<lambda>s. Inr annual_example) daily_example =
       Inr (annual_example\<lparr>payload := Rank2 366 d' mk'\<rparr>) \<and>
     d' ! 0 ! 58 = 58 \<and> \<not> mk' ! 0 ! 58 \<and> mk' ! 0 ! 59 \<and> d' ! 0 ! 60 = 59 \<and> \<not> mk' ! 0 ! 60 \<and>
     d' ! 0 ! 365 = 364 \<and> \<not> mk' ! 0 ! 365 \<and>
     d' ! 1 = [0..<366] \<and> mk' ! 1 = replicate 366 False"
proof -
  let ?d = "[[0..<366], [0..<366]]"
  let ?mk = "[replicate 365 False @ [True], replicate 366 False]"
  have m: "subday_mult lib_consts (freq daily_example) = Some 1"
    by (simp add: subday_mult_def daily_example_def)
  have f: "lib_consts FR_DAY \<le> freq daily_example" by (simp add: daily_example_def)
  have p: "payload annual_example = Rank2 (366 * 1) ?d ?mk" by (simp add: annual_example_def)
  have wf: "wf_series annual_example" by (simp add: wf_series_def annual_example_def)
  have y: "\<not> isleapyear (years annual_example ! 0)" "isleapyear (years annual_example ! 1)"
    by (simp_all add: annual_example_def isleapyear_def)
  obtain d' mk' where r:
    "convert_to_annual lib_consts (\<lambda>s. Inr annual_example) daily_example =
       Inr (annual_example\<lparr>payload := Rank2 (366 * 1) d' mk'\<rparr>)"
    "\<forall>i<length ?d.
        (isleapyear (years annual_example ! i) \<longrightarrow> d' ! i = ?d ! i \<and> mk' ! i = ?mk ! i) \<and>
        (\<not> isleapyear (years annual_example ! i) \<longrightarrow>
           (\<forall>k<366 * 1.
              d' ! i ! k = (if k < 60 * 1 then ?d ! i ! k else ?d ! i ! (k - 1)) \<and>
              mk' ! i ! k = (if k < 59 * 1 then ?mk ! i ! k
                             else if k < 60 * 1 then True else ?mk ! i ! (k - 1))))"
    using convert_to_annual_shift [where c = lib_consts and convertA = "\<lambda>s. Inr annual_example",
        OF m f refl p wf] by blast
  have r0: "\<forall>k<366. d' ! 0 ! k = (if k < 60 then [0..<366] ! k else [0..<366] ! (k - 1)) \<and>
              mk' ! 0 ! k = (if k < 59 then (replicate 365 False @ [True]) ! k
                             else if k < 60 then True else (replicate 365 False @ [True]) ! (k - 1))"
    using r(2) y(1) by simp
  have r1: "d' ! 1 = [0..<366] \<and> mk' ! 1 = replicate 366 False"
    using r(2) y(2) by simp
  have a: "d' ! 0 ! 58 = 58 \<and> \<not> mk' ! 0 ! 58" using r0 [rule_format, of 58] by (simp add: nth_append)
  have b: "mk' ! 0 ! 59" using r0 [rule_format, of 59] by simp
  have c: "d' ! 0 ! 60 = 59 \<and> \<not> mk' ! 0 ! 60" using r0 [rule_format, of 60] by (simp add: nth_append)
  have e: "d' ! 0 ! 365 = 364 \<and> \<not> mk' ! 0 ! 365" using r0 [rule_format, of 365] by (simp add: nth_append)
  show ?thesis using r(1) r1 a b c e by auto
qed

subsection \<open>accept\_atmost\_missing on a store\<close>

lemma np_array_copy_Some:
  assumes "np_array_copy st a = Some (st1, oc)"
  shows "\<exists>ob d. objs st a = Some ob \<and> dbuf st (o_data ob) = Some d \<and> oc = next_addr st + 1 \<and>
     st1 = st\<lparr>objs := (objs st)(next_addr st + 1 \<mapsto> ob\<lparr>o_data := next_addr st\<rparr>),
             dbuf := (dbuf st)(next_addr st \<mapsto> d),
             next_addr := next_addr st + 2\<rparr>"
  using assms by (auto simp: np_array_copy_def Let_def split: option.splits)

lemma accept_st_outcome:
  assumes "accept_atmost_missing_st fmul c st a max_missing strict = (st', r)"
  shows "(st' = st \<and> r = Inl TypeError) \<or>
     (\<exists>ob d e. objs st a = Some ob \<and> dbuf st (o_data ob) = Some d \<and> r = Inl e \<and>
        st' = st\<lparr>objs := (objs st)(next_addr st + 1 \<mapsto> ob\<lparr>o_data := next_addr st\<rparr>),
                 dbuf := (dbuf st)(next_addr st \<mapsto> d),
                 next_addr := next_addr st + 2\<rparr>) \<or>
     (\<exists>ob d m m'. objs st a = Some ob \<and> dbuf st (o_data ob) = Some d \<and>
        mbuf st (o_mask ob) = Some m \<and> r = Inr (next_addr st + 1) \<and>
        st' = st\<lparr>objs := (objs st)(next_addr st + 1 \<mapsto>
                    ob\<lparr>o_data := next_addr st, o_mask := next_addr st + 2\<rparr>),
                 dbuf := (dbuf st)(next_addr st \<mapsto> d),
                 mbuf := (mbuf st)(next_addr st + 2 \<mapsto> m'),
                 next_addr := next_addr st + 3\<rparr>)"
proof (cases "np_array_copy st a")
  case None
  then show ?thesis using assms by (simp add: accept_atmost_missing_st_def)
next
  case (Some p)
  obtain st1 oc where p: "p = (st1, oc)" by (cases p)
  obtain ob d where c: "objs st a = Some ob" "dbuf st (o_data ob) = Some d" "oc = next_addr st + 1"
    "st1 = st\<lparr>objs := (objs st)(next_addr st + 1 \<mapsto> ob\<lparr>o_data := next_addr st\<rparr>),
             dbuf := (dbuf st)(next_addr st \<mapsto> d),
             next_addr := next_addr st + 2\<rparr>"
    using np_array_copy_Some [of st a st1 oc] Some p by auto
  show ?thesis
  proof (cases "load st1 oc")
    case NotTS
    then show ?thesis using assms Some p c by (auto simp: accept_atmost_missing_st_def)
  next
    case (TS s)
    show ?thesis
    proof (cases "count_missing c (TS s)")
      case (Inl e)
      then show ?thesis using assms Some p c TS by (auto simp: accept_atmost_missing_st_def)
    next
      case (Inr missing)
      obtain m where m: "mbuf st (o_mask ob) = Some m"
        using TS c by (auto simp: load_def split: option.splits)
      let ?sel = "over strict (threshold fmul max_missing (last_dim (payload s)))"
      have u: "unshare_mask st1 oc =
          st\<lparr>objs := (objs st)(next_addr st + 1 \<mapsto>
                    ob\<lparr>o_data := next_addr st, o_mask := next_addr st + 2\<rparr>),
              dbuf := (dbuf st)(next_addr st \<mapsto> d),
              mbuf := (mbuf st)(next_addr st + 2 \<mapsto> m),
              next_addr := next_addr st + 3\<rparr>"
        using c m by (simp add: unshare_mask_def Let_def)
      have w: "setitem_masked_st missing ?sel (unshare_mask st1 oc) oc =
          st\<lparr>objs := (objs st)(next_addr st + 1 \<mapsto>
                    ob\<lparr>o_data := next_addr st, o_mask := next_addr st + 2\<rparr>),
              dbuf := (dbuf st)(next_addr st \<mapsto> d),
              mbuf := (mbuf st)(next_addr st + 2 \<mapsto> setitem_mask missing ?sel m),
              next_addr := next_addr st + 3\<rparr>"
        unfolding u using c(3) by (simp add: setitem_masked_st_def)
      have "st' = setitem_masked_st missing ?sel (unshare_mask st1 oc) oc" "r = Inr oc"
        using assms Some p TS Inr by (simp_all add: accept_atmost_missing_st_def Let_def)
      then show ?thesis using w c m by auto
    qed
  qed
qed


lemma load_frame:
  assumes "objs st' x = objs st x"
    and "\<And>ob. objs st x = Some ob \<Longrightarrow>
           dbuf st' (o_data ob) = dbuf st (o_data ob) \<and> mbuf st' (o_mask ob) = mbuf st (o_mask ob)"
  shows "load st' x = load st x"
  using assms by (auto simp: load_def split: option.splits)

text \<open>
  Claim C6. For every TimeSeries input, accept_atmost_missing returns a new TimeSeries
  and never mutates its input: after the call, whether it returned or raised, every
  object, data buffer and mask buffer that existed before holds what it held (so the
  input has its data, the contents of its mask and the same mask), and the series
  returned is a new object whose data and mask lie in storage that did not exist
  before and that no other object refers to, so that whatever is written later into the
  storage of the result leaves the input, and every view that shared its mask, as they
  were.
\<close>

theorem accept_atmost_missing_st_frame:
  assumes "wf_store st"
    and "accept_atmost_missing_st fmul c st a max_missing strict = (st', r)"
  shows "(\<forall>x. x \<in> dom (objs st) \<longrightarrow> objs st' x = objs st x \<and> load st' x = load st x) \<and>
     (\<forall>x. x \<in> dom (dbuf st) \<longrightarrow> dbuf st' x = dbuf st x) \<and>
     (\<forall>x. x \<in> dom (mbuf st) \<longrightarrow> mbuf st' x = mbuf st x) \<and>
     (\<forall>res. r = Inr res \<longrightarrow> res \<notin> dom (objs st) \<and>
        (\<exists>ob. objs st' res = Some ob \<and>
           o_data ob \<notin> dom (dbuf st) \<and> o_mask ob \<notin> dom (mbuf st) \<and>
           (\<forall>y ob'. y \<noteq> res \<and> objs st' y = Some ob' \<longrightarrow>
              o_data ob' \<noteq> o_data ob \<and> o_mask ob' \<noteq> o_mask ob) \<and>
           (\<forall>d' m' x. x \<in> dom (objs st) \<longrightarrow>
              load (st'\<lparr>dbuf := (dbuf st')(o_data ob \<mapsto> d'),
                         mbuf := (mbuf st')(o_mask ob \<mapsto> m')\<rparr>) x = load st x)))"
proof -
  let ?n = "next_addr st"
  have below: "\<And>x. x \<in> dom (objs st) \<Longrightarrow> x < ?n" "\<And>x. x \<in> dom (dbuf st) \<Longrightarrow> x < ?n"
    "\<And>x. x \<in> dom (mbuf st) \<Longrightarrow> x < ?n"
    using assms(1) by (simp_all add: wf_store_def)
  have refs: "\<And>x ob. objs st x = Some ob \<Longrightarrow> o_data ob < ?n \<and> o_mask ob < ?n"
    using assms(1) by (auto simp: wf_store_def)
  consider (same) "st' = st" "r = Inl TypeError"
    | (copied) ob d e where "objs st a = Some ob" "dbuf st (o_data ob) = Some d" "r = Inl e"
        "st' = st\<lparr>objs := (objs st)(?n + 1 \<mapsto> ob\<lparr>o_data := ?n\<rparr>),
                 dbuf := (dbuf st)(?n \<mapsto> d), next_addr := ?n + 2\<rparr>"
    | (masked) ob d m m1 where "objs st a = Some ob" "dbuf st (o_data ob) = Some d"
        "mbuf st (o_mask ob) = Some m" "r = Inr (?n + 1)"
        "st' = st\<lparr>objs := (objs st)(?n + 1 \<mapsto> ob\<lparr>o_data := ?n, o_mask := ?n + 2\<rparr>),
                 dbuf := (dbuf st)(?n \<mapsto> d),
                 mbuf := (mbuf st)(?n + 2 \<mapsto> m1),
                 next_addr := ?n + 3\<rparr>"
    using accept_st_outcome [OF assms(2)] by blast
  then show ?thesis
  proof cases
    case same
    then show ?thesis by simp
  next
    case copied
    have o: "objs st' x = objs st x" if "x \<in> dom (objs st)" for x
      using below(1) [OF that] copied(4) by simp
    have db: "dbuf st' x = dbuf st x" if "x < ?n" for x using that copied(4) by simp
    have mb: "mbuf st' x = mbuf st x" for x using copied(4) by simp
    have l: "load st' x = load st x" if "x \<in> dom (objs st)" for x
      using o [OF that] db mb refs by (intro load_frame) auto
    show ?thesis using o l db mb below copied(3) by auto
  next
    case masked
    let ?ob = "ob\<lparr>o_data := ?n, o_mask := ?n + 2\<rparr>"
    have o: "objs st' x = objs st x" if "x \<in> dom (objs st)" for x
      using below(1) [OF that] masked(5) by simp
    have db: "dbuf st' x = dbuf st x" if "x < ?n" for x using that masked(5) by simp
    have mb: "mbuf st' x = mbuf st x" if "x < ?n" for x using that masked(5) by simp
    have l: "load st' x = load st x" if "x \<in> dom (objs st)" for x
      using o [OF that] db mb refs by (intro load_frame) auto
    have res: "objs st' (?n + 1) = Some ?ob" using masked(5) by simp
    have fresh: "?n + 1 \<notin> dom (objs st)" "o_data ?ob \<notin> dom (dbuf st)" "o_mask ?ob \<notin> dom (mbuf st)"
      using below(1) [of "?n + 1"] below(2) [of ?n] below(3) [of "?n + 2"] by auto
    have others: "o_data ob' \<noteq> o_data ?ob \<and> o_mask ob' \<noteq> o_mask ?ob"
      if "y \<noteq> ?n + 1" "objs st' y = Some ob'" for y ob'
    proof -
      have "objs st y = Some ob'" using that masked(5) by simp
      then show ?thesis using refs by fastforce
    qed
    have later: "load (st'\<lparr>dbuf := (dbuf st')(o_data ?ob \<mapsto> d'),
                         mbuf := (mbuf st')(o_mask ?ob \<mapsto> m')\<rparr>) x = load st x"
      if "x \<in> dom (objs st)" for d' m' x
    proof (rule load_frame)
      show "objs (st'\<lparr>dbuf := (dbuf st')(o_data ?ob \<mapsto> d'),
                         mbuf := (mbuf st')(o_mask ?ob \<mapsto> m')\<rparr>) x = objs st x"
        using o [OF that] by simp
    next
      fix ob' assume "objs st x = Some ob'"
      then have "o_data ob' < ?n" "o_mask ob' < ?n" using refs by auto
      then show "dbuf (st'\<lparr>dbuf := (dbuf st')(o_data ?ob \<mapsto> d'),
                         mbuf := (mbuf st')(o_mask ?ob \<mapsto> m')\<rparr>) (o_data ob') = dbuf st (o_data ob') \<and>
          mbuf (st'\<lparr>dbuf := (dbuf st')(o_data ?ob \<mapsto> d'),
                         mbuf := (mbuf st')(o_mask ?ob \<mapsto> m')\<rparr>) (o_mask ob') = mbuf st (o_mask ob')"
        using db mb by simp
    qed
    have part4: "\<forall>res. r = Inr res \<longrightarrow> res \<notin> dom (objs st) \<and>
        (\<exists>ob. objs st' res = Some ob \<and>
           o_data ob \<notin> dom (dbuf st) \<and> o_mask ob \<notin> dom (mbuf st) \<and>
           (\<forall>y ob'. y \<noteq> res \<and> objs st' y = Some ob' \<longrightarrow>
              o_data ob' \<noteq> o_data ob \<and> o_mask ob' \<noteq> o_mask ob) \<and>
           (\<forall>d' m' x. x \<in> dom (objs st) \<longrightarrow>
              load (st'\<lparr>dbuf := (dbuf st')(o_data ob \<mapsto> d'),
                         mbuf := (mbuf st')(o_mask ob \<mapsto> m')\<rparr>) x = load st x))"
    proof (intro allI impI conjI)
      fix res assume "r = Inr res"
      then have e: "res = ?n + 1" using masked(4) by simp
      show "res \<notin> dom (objs st)" using e fresh(1) by simp
      show "\<exists>ob. objs st' res = Some ob \<and>
           o_data ob \<notin> dom (dbuf st) \<and> o_mask ob \<notin> dom (mbuf st) \<and>
           (\<forall>y ob'. y \<noteq> res \<and> objs st' y = Some ob' \<longrightarrow>
              o_data ob' \<noteq> o_data ob \<and> o_mask ob' \<noteq> o_mask ob) \<and>
           (\<forall>d' m' x. x \<in> dom (objs st) \<longrightarrow>
              load (st'\<lparr>dbuf := (dbuf st')(o_data ob \<mapsto> d'),
                         mbuf := (mbuf st')(o_mask ob \<mapsto> m')\<rparr>) x = load st x)"
        unfolding e using res fresh(2,3) others later
        by (intro exI [of _ ?ob]) blast
    qed
    have part1: "\<forall>x. x \<in> dom (objs st) \<longrightarrow> objs st' x = objs st x \<and> load st' x = load st x"
      using o l by simp
    have part2: "\<forall>x. x \<in> dom (dbuf st) \<longrightarrow> dbuf st' x = dbuf st x"
      using db below(2) by simp
    have part3: "\<forall>x. x \<in> dom (mbuf st) \<longrightarrow> mbuf st' x = mbuf st x"
      using mb below(3) by simp
    show ?thesis using part1 part2 part3 part4 by (intro conjI)
  qed
qed


theorem accept_atmost_missing_st_frame_witness:
  "snd (accept_atmost_missing_st exact_mul lib_consts store_example 2 (1 / 2) False) = Inr 5 \<and>
   load (fst (accept_atmost_missing_st exact_mul lib_consts store_example 2 (1 / 2) False)) 5 =
     TS half_masked_example \<and>
   load (fst (accept_atmost_missing_st exact_mul lib_consts store_example 2 (1 / 2) False)) 2 =
     TS half_example \<and>
   load (fst (accept_atmost_missing_st exact_mul lib_consts store_example 2 (1 / 2) False)) 3 =
     TS half_example \<and>
   mbuf (fst (accept_atmost_missing_st exact_mul lib_consts store_example 2 (1 / 2) False)) 1 =
     mbuf store_example 1"
proof -
  let ?p = "accept_atmost_missing_st exact_mul lib_consts store_example 2 (1 / 2) False"
  have wf: "wf_store store_example"
    by (auto simp: wf_store_def store_example_def split: if_splits)
  have e: "?p = (fst ?p, snd ?p)" by simp
  note fr = accept_atmost_missing_st_frame [OF wf e]
  have dom: "2 \<in> dom (objs store_example)" "3 \<in> dom (objs store_example)"
    "1 \<in> dom (mbuf store_example)"
    by (simp_all add: store_example_def)
  have l: "load store_example 2 = TS half_example" "load store_example 3 = TS half_example"
    by (simp_all add: load_def store_example_def half_example_def)
  have a: "load (fst ?p) 2 = TS half_example" "load (fst ?p) 3 = TS half_example"
    using fr [THEN conjunct1, rule_format, OF dom(1)] fr [THEN conjunct1, rule_format, OF dom(2)] l
    by simp_all
  have b: "mbuf (fst ?p) 1 = mbuf store_example 1"
    using fr [THEN conjunct2, THEN conjunct2, THEN conjunct1, rule_format, OF dom(3)] .
  have cm: "count_missing lib_consts (TS half_example) = Inr (PerRow [6, 5])"
    by code_simp
  have cp: "np_array_copy store_example 2 = Some
      (store_example\<lparr>objs := (objs store_example)(5 \<mapsto>
           \<lparr>o_freq = 3000, o_years = [2003, 2004], o_months = [1, 1], o_data = 4, o_mask = 1\<rparr>),
         dbuf := (dbuf store_example)(4 \<mapsto> A2 12 [[1, 2, 3, 4, 5, 6, 7, 8, 9, 10, 11, 12],
                            [1, 2, 3, 4, 5, 6, 7, 8, 9, 10, 11, 12]]),
         next_addr := 6\<rparr>, 5)"
    by (simp add: np_array_copy_def store_example_def Let_def)
  have v: "snd ?p = Inr 5 \<and> load (fst ?p) 5 = TS half_masked_example"
    unfolding accept_atmost_missing_st_def cp
    by (simp add: load_def store_example_def cm [unfolded half_example_def] Let_def
        unshare_mask_def setitem_masked_st_def setitem_mask_def threshold_def exact_mul_def
        np_round_def over_def half_masked_example_def half_example_def)
  show ?thesis using v a b by simp
qed

text \<open>
  The function on the store and the function on values agree: the call fails on the
  store as it fails on the value of its argument, and the object it returns stands for
  the series the function on values returns.
\<close>

lemma mk_payload_setitem:
  "mk_payload d m = Some p \<Longrightarrow>
   mk_payload d (setitem_mask ms sel m) = Some (setitem_masked ms sel p)"
  by (cases d; cases m; cases ms)
    (auto simp: setitem_mask_def setitem_masked_def split: if_splits)

lemma accept_atmost_missing_st_refines:
  assumes "accept_atmost_missing_st fmul c st a max_missing strict = (st', r)"
  shows "case r of
           Inl e \<Rightarrow> accept_atmost_missing fmul c (load st a) max_missing strict = Inl e
         | Inr res \<Rightarrow> (\<exists>s'. accept_atmost_missing fmul c (load st a) max_missing strict = Inr s'
                          \<and> load st' res = TS s')"
proof (cases "np_array_copy st a")
  case None
  then have "load st a = NotTS"
    by (auto simp: np_array_copy_def load_def Let_def split: option.splits)
  then show ?thesis using assms None
    by (auto simp: accept_atmost_missing_st_def accept_atmost_missing_def)
next
  case (Some p)
  obtain st1 oc where p: "p = (st1, oc)" by (cases p)
  obtain ob d where c: "objs st a = Some ob" "dbuf st (o_data ob) = Some d" "oc = next_addr st + 1"
    "st1 = st\<lparr>objs := (objs st)(next_addr st + 1 \<mapsto> ob\<lparr>o_data := next_addr st\<rparr>),
             dbuf := (dbuf st)(next_addr st \<mapsto> d),
             next_addr := next_addr st + 2\<rparr>"
    using np_array_copy_Some [of st a st1 oc] Some p by auto
  have same: "load st1 oc = load st a"
    using c by (simp add: load_def split: option.splits)
  show ?thesis
  proof (cases "load st1 oc")
    case NotTS
    then show ?thesis using assms Some p same
      by (auto simp: accept_atmost_missing_st_def accept_atmost_missing_def)
  next
    case (TS s)
    obtain m pl where m: "mbuf st (o_mask ob) = Some m" "mk_payload d m = Some pl"
      "payload s = pl" "freq s = o_freq ob" "years s = o_years ob" "months s = o_months ob"
      using TS c by (auto simp: load_def split: option.splits)
    have la: "load st a = TS s" using same TS by simp
    show ?thesis
    proof (cases "count_missing c (TS s)")
      case (Inl e)
      have "r = Inl e" using assms Some p TS Inl by (simp add: accept_atmost_missing_st_def)
      then show ?thesis using Inl by (simp add: la accept_atmost_missing_def err_bind_def)
    next
      case (Inr missing)
      let ?sel = "over strict (threshold fmul max_missing (last_dim (payload s)))"
      have u: "unshare_mask st1 oc =
          st\<lparr>objs := (objs st)(next_addr st + 1 \<mapsto>
                    ob\<lparr>o_data := next_addr st, o_mask := next_addr st + 2\<rparr>),
              dbuf := (dbuf st)(next_addr st \<mapsto> d),
              mbuf := (mbuf st)(next_addr st + 2 \<mapsto> m),
              next_addr := next_addr st + 3\<rparr>"
        using c m(1) by (simp add: unshare_mask_def Let_def)
      have w: "setitem_masked_st missing ?sel (unshare_mask st1 oc) oc =
          st\<lparr>objs := (objs st)(next_addr st + 1 \<mapsto>
                    ob\<lparr>o_data := next_addr st, o_mask := next_addr st + 2\<rparr>),
              dbuf := (dbuf st)(next_addr st \<mapsto> d),
              mbuf := (mbuf st)(next_addr st + 2 \<mapsto> setitem_mask missing ?sel m),
              next_addr := next_addr st + 3\<rparr>"
        unfolding u using c(3) by (simp add: setitem_masked_st_def)
      have r: "st' = setitem_masked_st missing ?sel (unshare_mask st1 oc) oc" "r = Inr oc"
        using assms Some p TS Inr by (simp_all add: accept_atmost_missing_st_def Let_def)
      have pure: "accept_atmost_missing fmul c (load st a) max_missing strict =
          Inr (s\<lparr>payload := setitem_masked missing ?sel (payload s)\<rparr>)"
        using Inr by (simp add: la accept_atmost_missing_def err_bind_def)
      have "load st' oc = TS (s\<lparr>payload := setitem_masked missing ?sel (payload s)\<rparr>)"
        unfolding r(1) w using c(3) m mk_payload_setitem [OF m(2), of missing ?sel]
        by (simp add: load_def)
      then show ?thesis using pure r(2) by simp
    qed
  qed
qed

end
